theory Spec2Isabelle
  imports Main "HOL-Library.Multiset"
begin

section \<open>Python strings and the standard-library functions the scripts call\<close>

text \<open>
  A Python \<open>str\<close> and a \<open>bytes\<close> value are both modelled as \<open>string\<close> (a list of
  8-bit characters); the scripts only compare, slice and concatenate them. Case
  conversion and white space follow Python on ASCII.
\<close>

definition startswith :: "string \<Rightarrow> string \<Rightarrow> bool" where
  "startswith s p \<longleftrightarrow> take (length p) s = p"

definition endswith :: "string \<Rightarrow> string \<Rightarrow> bool" where
  "endswith s p \<longleftrightarrow> length p \<le> length s \<and> drop (length s - length p) s = p"

text \<open>\<open>sub in s\<close> on strings: \<open>sub\<close> occurs in \<open>s\<close> as a contiguous run.\<close>

fun py_in :: "string \<Rightarrow> string \<Rightarrow> bool" where
  "py_in sub [] = (sub = [])"
| "py_in sub (c # cs) = (startswith (c # cs) sub \<or> py_in sub cs)"

definition lower_char :: "char \<Rightarrow> char" where
  "lower_char c =
     (case map_of (zip ''ABCDEFGHIJKLMNOPQRSTUVWXYZ'' ''abcdefghijklmnopqrstuvwxyz'') c of
        Some d \<Rightarrow> d
      | None \<Rightarrow> c)"

definition lower :: "string \<Rightarrow> string" where
  "lower s = map lower_char s"

definition isspace :: "char \<Rightarrow> bool" where
  "isspace c \<longleftrightarrow>
     c \<in> set [CHR 0x09, CHR 0x0A, CHR 0x0B, CHR 0x0C, CHR 0x0D,
              CHR 0x1C, CHR 0x1D, CHR 0x1E, CHR 0x1F, CHR '' '']"

definition strip :: "string \<Rightarrow> string" where
  "strip s = rev (dropWhile isspace (rev (dropWhile isspace s)))"

text \<open>\<open>s.split(sep)\<close> for a one-character separator: never an empty list.\<close>

fun split_on :: "char \<Rightarrow> string \<Rightarrow> string list" where
  "split_on sep [] = [[]]"
| "split_on sep (c # cs) =
     (if c = sep then [] # split_on sep cs
      else (case split_on sep cs of
              [] \<Rightarrow> [[c]]
            | p # ps \<Rightarrow> (c # p) # ps))"

text \<open>\<open>s.replace(old, new)\<close>: every non-overlapping occurrence, left to right.\<close>

function replace :: "string \<Rightarrow> string \<Rightarrow> string \<Rightarrow> string" where
  "replace old new s =
     (if old = [] then new @ concat (map (\<lambda>c. c # new) s)
      else if s = [] then []
      else if startswith s old then new @ replace old new (drop (length old) s)
      else hd s # replace old new (tl s))"
  by pat_completeness auto
termination
  by (relation "measure (\<lambda>(old, new, s). length s)") auto

declare replace.simps [simp del]

definition digit_char :: "nat \<Rightarrow> char" where
  "digit_char d = ''0123456789'' ! (d mod 10)"

text \<open>\<open>str(n)\<close>, the decimal text an f-string puts in for a non-negative integer.\<close>

function str_nat :: "nat \<Rightarrow> string" where
  "str_nat n = (if n < 10 then [digit_char n] else str_nat (n div 10) @ [digit_char (n mod 10)])"
  by pat_completeness auto
termination
  by (relation "measure id") auto

declare str_nat.simps [simp del]

text \<open>\<open>os.path.basename\<close> and \<open>os.path.join\<close> (two arguments) on POSIX.\<close>

definition basename :: "string \<Rightarrow> string" where
  "basename p = rev (takeWhile (\<lambda>c. c \<noteq> CHR ''/'') (rev p))"

definition path_join :: "string \<Rightarrow> string \<Rightarrow> string" where
  "path_join a b =
     (if startswith b ''/'' then b
      else if a = [] \<or> endswith a ''/'' then a @ b
      else a @ ''/'' @ b)"

subsection \<open>\<open>urllib.parse.urlparse\<close>\<close>

text \<open>
  The six components \<open>urlparse\<close> returns, computed as \<open>urlsplit\<close> and \<open>_splitparams\<close>
  do: a scheme is a letter followed by letters, digits, \<open>+\<close>, \<open>-\<close> or \<open>.\<close> up to the
  first colon; after \<open>//\<close> the network location runs to the first of \<open>/\<close>, \<open>?\<close>,
  \<open>#\<close>; the fragment is cut at the first \<open>#\<close>, the query at the first \<open>?\<close>, and
  the parameters at the first \<open>;\<close> of the last path segment. Outside the model: the
  \<open>ValueError\<close> the library raises for an unbalanced \<open>[\<close> or \<open>]\<close> in the network
  location, and its removal of ASCII control characters.
\<close>

record url_parts =
  scheme :: string
  netloc :: string
  path :: string
  params :: string
  query :: string
  fragment :: string

definition isalpha :: "char \<Rightarrow> bool" where
  "isalpha c \<longleftrightarrow> c \<in> set ''abcdefghijklmnopqrstuvwxyzABCDEFGHIJKLMNOPQRSTUVWXYZ''"

definition scheme_char :: "char \<Rightarrow> bool" where
  "scheme_char c \<longleftrightarrow> isalpha c \<or> c \<in> set ''0123456789+-.''"

text \<open>\<open>s.split(sep, 1)\<close> when \<open>sep\<close> occurs in \<open>s\<close>: the text before and after its first occurrence.\<close>

definition split_first :: "char \<Rightarrow> string \<Rightarrow> string \<times> string" where
  "split_first sep s = (takeWhile (\<lambda>c. c \<noteq> sep) s, drop 1 (dropWhile (\<lambda>c. c \<noteq> sep) s))"

definition uses_params :: "string list" where
  "uses_params = ['''', ''ftp'', ''hdl'', ''prospero'', ''http'', ''imap'', ''https'', ''shttp'',
     ''rtsp'', ''rtspu'', ''sip'', ''sips'', ''mms'', ''sftp'', ''tel'']"

definition splitparams :: "string \<Rightarrow> string \<times> string" where
  "splitparams u =
     (let seg = basename u;
          dir = take (length u - length seg) u
      in if CHR '';'' \<in> set seg
         then (dir @ fst (split_first (CHR '';'') seg), snd (split_first (CHR '';'') seg))
         else (u, []))"

definition urlparse :: "string \<Rightarrow> url_parts" where
  "urlparse url0 =
     (let head = takeWhile (\<lambda>c. c \<noteq> CHR '':'') url0;
          has_scheme = (CHR '':'' \<in> set url0 \<and> head \<noteq> [] \<and> isalpha (hd head) \<and> list_all scheme_char head);
          sch = (if has_scheme then lower head else []);
          url1 = (if has_scheme then drop (length head + 1) url0 else url0);
          has_netloc = (take 2 url1 = ''//'');
          after = drop 2 url1;
          loc = (if has_netloc then takeWhile (\<lambda>c. c \<notin> set ''/?#'') after else []);
          url2 = (if has_netloc then dropWhile (\<lambda>c. c \<notin> set ''/?#'') after else url1);
          frag = (if CHR ''#'' \<in> set url2 then snd (split_first (CHR ''#'') url2) else []);
          url3 = (if CHR ''#'' \<in> set url2 then fst (split_first (CHR ''#'') url2) else url2);
          qry = (if CHR ''?'' \<in> set url3 then snd (split_first (CHR ''?'') url3) else []);
          url4 = (if CHR ''?'' \<in> set url3 then fst (split_first (CHR ''?'') url3) else url3);
          with_params = (sch \<in> set uses_params \<and> CHR '';'' \<in> set url4)
      in \<lparr>scheme = sch, netloc = loc,
          path = (if with_params then fst (splitparams url4) else url4),
          params = (if with_params then snd (splitparams url4) else []),
          query = qry, fragment = frag\<rparr>)"

section \<open>The download scripts\<close>

text \<open>
  A Python dict is an association list in insertion order, read with \<open>dict_get\<close>; its
  values are strings, integers and booleans. The file system is a map from a path to
  the bytes of the regular file there; directories are not files of the model, and
  opening a file for writing always succeeds.
\<close>

datatype pyval = VStr string | VInt int | VBool bool

type_synonym dict = "(string \<times> pyval) list"

definition dict_get :: "dict \<Rightarrow> string \<Rightarrow> pyval option" where
  "dict_get d k = map_of d k"

type_synonym filesystem = "string \<rightharpoonup> string"

definition exists_path :: "filesystem \<Rightarrow> string \<Rightarrow> bool" where
  "exists_path files p \<longleftrightarrow> files p \<noteq> None"

definition getsize :: "filesystem \<Rightarrow> string \<Rightarrow> nat" where
  "getsize files p = (case files p of None \<Rightarrow> 0 | Some bytes \<Rightarrow> length bytes)"

text \<open>
  What \<open>await page.evaluate(script, url)\<close> gives back: the call raises, or the script
  returns its \<open>{error: message}\<close> object, or a string (the data URL of the body), or
  anything else (\<open>None\<close>, a dict without \<open>error\<close>).
\<close>

datatype response = Raised string | ErrorDict string | StrResult string | OtherResult

text \<open>
  The browser and the base-64 decoder are outside the repository. \<open>evaluate\<close> may
  answer differently over time: it is given the URLs requested earlier. \<open>b64decode\<close>
  returns the bytes or raises (\<open>Inl\<close> the message). \<open>goto_disclosures\<close> and
  \<open>goto_url\<close> are the two page navigations; \<open>Some\<close> message means the call raised.
\<close>

record browser =
  evaluate :: "string list \<Rightarrow> string \<Rightarrow> response"
  b64decode :: "string \<Rightarrow> string + string"
  goto_disclosures :: "string list \<Rightarrow> string option"
  goto_url :: "string list \<Rightarrow> string \<Rightarrow> string option"

text \<open>
  The state a download loop works on: the files on disk, the two result lists, and
  \<open>fetched\<close>, the URLs for which the browser was driven so far (a navigation or
  the fetch script), in order: a log kept by the model only, to state which URLs were
  requested over the network.
\<close>

record dl_state =
  fs :: filesystem
  downloaded :: "dict list"
  failed :: "dict list"
  fetched :: "string list"

subsection \<open>\<open>DownloadOrchestrator.download_pdfs\<close> (download\_orchestrator.py)\<close>

text \<open>
  \<open>pdf_list\<close> is the list of the \<open>url\<close> values of the dicts passed in. One iteration
  of the \<open>for\<close> loop, for the \<open>i\<close>-th URL (counted from 1): the file name is the last
  segment of the URL's path, or \<open>epstein_doc_<i>.pdf\<close> when that is empty or does not
  end in \<open>.pdf\<close>; an existing file is skipped; otherwise the body is fetched, decoded
  and written as it is. Every exception of the \<open>try\<close> block ends as a \<open>failed\<close> entry.
\<close>

definition orchestrator_filename :: "nat \<Rightarrow> string \<Rightarrow> string" where
  "orchestrator_filename i url =
     (let filename = basename (path (urlparse url))
      in if filename = [] \<or> \<not> endswith filename ''.pdf''
         then ''epstein_doc_'' @ str_nat i @ ''.pdf''
         else filename)"

definition failed_entry :: "string \<Rightarrow> string \<Rightarrow> string \<Rightarrow> dict" where
  "failed_entry url filename e = [(''url'', VStr url), (''filename'', VStr filename), (''error'', VStr e)]"

definition download_pdfs_step :: "browser \<Rightarrow> string \<Rightarrow> nat \<Rightarrow> string \<Rightarrow> dl_state \<Rightarrow> dl_state" where
  "download_pdfs_step env output_dir i url st =
     (let filename = orchestrator_filename i url;
          output_path = path_join output_dir filename
      in if exists_path (fs st) output_path
         then st\<lparr>downloaded := downloaded st @
                [[(''url'', VStr url), (''filename'', VStr filename),
                  (''status'', VStr ''already_exists''), (''path'', VStr output_path)]]\<rparr>
         else
           (let response = evaluate env (fetched st) url;
                st1 = st\<lparr>fetched := fetched st @ [url]\<rparr>;
                fail = (\<lambda>e. st1\<lparr>failed := failed st1 @ [failed_entry url filename e]\<rparr>)
            in case response of
                 Raised e \<Rightarrow> fail e
               | ErrorDict e \<Rightarrow> fail e
               | OtherResult \<Rightarrow> fail ''Invalid response format''
               | StrResult r \<Rightarrow>
                   if r \<noteq> [] \<and> CHR '','' \<in> set r
                   then (case split_on (CHR '','') r of
                           _ # base64_data # _ \<Rightarrow>
                             (case b64decode env base64_data of
                                Inl e \<Rightarrow> fail e
                              | Inr binary_data \<Rightarrow>
                                  st1\<lparr>fs := (fs st1)(output_path \<mapsto> binary_data),
                                      downloaded := downloaded st1 @
                                        [[(''url'', VStr url), (''filename'', VStr filename),
                                          (''status'', VStr ''downloaded''),
                                          (''size'', VInt (int (length binary_data))),
                                          (''path'', VStr output_path)]]\<rparr>)
                         | _ \<Rightarrow> fail ''list index out of range'')
                   else fail ''Invalid response format''))"

fun download_pdfs_loop :: "browser \<Rightarrow> string \<Rightarrow> nat \<Rightarrow> string list \<Rightarrow> dl_state \<Rightarrow> dl_state" where
  "download_pdfs_loop env output_dir i [] st = st"
| "download_pdfs_loop env output_dir i (url # rest) st =
     download_pdfs_loop env output_dir (Suc i) rest (download_pdfs_step env output_dir i url st)"

text \<open>
  The method on an orchestrator whose lists are those of \<open>st\<close> (empty after
  \<open>__init__\<close>): \<open>enumerate(pdf_list, 1)\<close>.
\<close>

definition download_pdfs :: "browser \<Rightarrow> string \<Rightarrow> string list \<Rightarrow> dl_state \<Rightarrow> dl_state" where
  "download_pdfs env output_dir pdf_list st = download_pdfs_loop env output_dir 1 pdf_list st"

definition new_orchestrator :: "filesystem \<Rightarrow> dl_state" where
  "new_orchestrator files = \<lparr>fs = files, downloaded = [], failed = [], fetched = []\<rparr>"

definition url_of :: "dict \<Rightarrow> pyval option" where
  "url_of d = dict_get d ''url''"

subsection \<open>\<open>download_all_pdfs\<close> (download\_all\_epstein.py)\<close>

text \<open>
  The output name is \<open>f"{dataset}_{filename}"\<close>: the last path segment behind the
  tag of the first data set (1 to 9) whose name occurs in the URL, \<open>unknown\<close> without
  one. A file of more than 1000 bytes at the output path is skipped. A fetched body is
  written only when its first four bytes are \<open>%PDF\<close>.
\<close>

definition dataset_tag :: "string \<Rightarrow> string" where
  "dataset_tag url =
     (if py_in ''DataSet%20'' url \<or> py_in ''DataSet '' url
      then (case find (\<lambda>d. py_in (''DataSet%20'' @ str_nat d) url \<or> py_in (''DataSet '' @ str_nat d) url)
                   [1..<10] of
              Some d \<Rightarrow> ''dataset_'' @ str_nat d
            | None \<Rightarrow> ''unknown'')
      else ''unknown'')"

definition epstein_dir :: string where
  "epstein_dir = path_join ''reference'' ''epstein_files''"

definition epstein_output_filename :: "string \<Rightarrow> string" where
  "epstein_output_filename url = dataset_tag url @ ''_'' @ basename (path (urlparse url))"

definition download_all_pdfs_step :: "browser \<Rightarrow> string \<Rightarrow> dl_state \<Rightarrow> dl_state" where
  "download_all_pdfs_step env url st =
     (let output_filename = epstein_output_filename url;
          output_path = path_join epstein_dir output_filename
      in if exists_path (fs st) output_path \<and> getsize (fs st) output_path > 1000
         then st\<lparr>downloaded := downloaded st @
                [[(''url'', VStr url), (''filename'', VStr output_filename),
                  (''status'', VStr ''already_exists''), (''path'', VStr output_path)]]\<rparr>
         else
           (let response = evaluate env (fetched st) url;
                st1 = st\<lparr>fetched := fetched st @ [url]\<rparr>;
                fail = (\<lambda>e. st1\<lparr>failed := failed st1 @ [failed_entry url output_filename e]\<rparr>)
            in case response of
                 Raised e \<Rightarrow> fail e
               | ErrorDict e \<Rightarrow> fail e
               | OtherResult \<Rightarrow> fail ''Invalid response format''
               | StrResult r \<Rightarrow>
                   if r \<noteq> [] \<and> CHR '','' \<in> set r
                   then (case split_on (CHR '','') r of
                           _ # base64_data # _ \<Rightarrow>
                             (case b64decode env base64_data of
                                Inl e \<Rightarrow> fail e
                              | Inr binary_data \<Rightarrow>
                                  if take 4 binary_data = ''%PDF''
                                  then st1\<lparr>fs := (fs st1)(output_path \<mapsto> binary_data),
                                      downloaded := downloaded st1 @
                                        [[(''url'', VStr url), (''filename'', VStr output_filename),
                                          (''status'', VStr ''downloaded''),
                                          (''size'', VInt (int (length binary_data))),
                                          (''path'', VStr output_path)]]\<rparr>
                                  else fail ''Not a valid PDF file'')
                         | _ \<Rightarrow> fail ''list index out of range'')
                   else fail ''Invalid response format''))"

fun download_all_pdfs_loop :: "browser \<Rightarrow> string list \<Rightarrow> dl_state \<Rightarrow> dl_state" where
  "download_all_pdfs_loop env [] st = st"
| "download_all_pdfs_loop env (url # rest) st =
     download_all_pdfs_loop env rest (download_all_pdfs_step env url st)"

text \<open>
  The function on the files \<open>files\<close>: it first opens the disclosures page, outside
  any \<open>try\<close>, so a failure there ends the call with the exception (\<open>Inl\<close>); then the
  loop runs from empty lists. The report it writes last goes to
  \<open>reference/download_report.json\<close>, which is not a download path, and is left out.
\<close>

datatype py_error = BrowserError string | FileNotFoundError | JSONDecodeError | AttributeError
  | ZeroDivisionError

definition download_all_pdfs :: "browser \<Rightarrow> string list \<Rightarrow> filesystem \<Rightarrow> py_error + dl_state" where
  "download_all_pdfs env pdf_list files =
     (case goto_disclosures env [] of
        Some e \<Rightarrow> Inl (BrowserError e)
      | None \<Rightarrow>
          Inr (download_all_pdfs_loop env pdf_list
                 \<lparr>fs = files, downloaded = [], failed = [], fetched = []\<rparr>))"

subsection \<open>\<open>download_with_age_verification\<close> (download\_pdfs\_with\_verification.py)\<close>

text \<open>
  The file name is the text after the last \<open>/\<close> of the URL with \<open>%20\<close> replaced by
  \<open>_\<close>. Each URL gets a fresh browser context: the disclosures page, then the URL
  itself (a navigation error is passed over only when it says that a download is
  starting), then the fetch script. Waiting for and clicking the age button changes
  nothing the loop reads; its exceptions are swallowed.
\<close>

definition verification_filename :: "string \<Rightarrow> string" where
  "verification_filename url = replace ''%20'' ''_'' (last (split_on (CHR ''/'') url))"

definition download_with_age_verification_step :: "browser \<Rightarrow> string \<Rightarrow> dl_state \<Rightarrow> dl_state" where
  "download_with_age_verification_step env url st =
     (let filename = verification_filename url;
          output_path = path_join ''reference/epstein_files'' filename
      in if exists_path (fs st) output_path \<and> getsize (fs st) output_path > 1000
         then st\<lparr>downloaded := downloaded st @
                [[(''url'', VStr url), (''filename'', VStr filename), (''status'', VStr ''exists'')]]\<rparr>
         else
           (let st1 = st\<lparr>fetched := fetched st @ [url]\<rparr>;
                fail = (\<lambda>e. st1\<lparr>failed := failed st1 @ [failed_entry url filename e]\<rparr>)
            in case goto_disclosures env (fetched st) of
                 Some e \<Rightarrow> fail e
               | None \<Rightarrow>
                  (case (case goto_url env (fetched st) url of
                           Some e \<Rightarrow> if py_in ''Download is starting'' e then None else Some e
                         | None \<Rightarrow> None) of
                    Some e \<Rightarrow> fail e
                  | None \<Rightarrow>
                     (case evaluate env (fetched st) url of
                        Raised e \<Rightarrow> fail e
                      | ErrorDict e \<Rightarrow> fail e
                      | OtherResult \<Rightarrow> fail ''Invalid response''
                      | StrResult r \<Rightarrow>
                          if r \<noteq> [] \<and> CHR '','' \<in> set r
                          then (case split_on (CHR '','') r of
                                  _ # base64_data # _ \<Rightarrow>
                                    (case b64decode env base64_data of
                                       Inl e \<Rightarrow> fail e
                                     | Inr binary_data \<Rightarrow>
                                         if take 4 binary_data = ''%PDF''
                                         then st1\<lparr>fs := (fs st1)(output_path \<mapsto> binary_data),
                                             downloaded := downloaded st1 @
                                               [[(''url'', VStr url), (''filename'', VStr filename),
                                                 (''size'', VInt (int (length binary_data)))]]\<rparr>
                                         else fail ''Not a valid PDF'')
                                | _ \<Rightarrow> fail ''list index out of range'')
                          else fail ''Invalid response''))))"

fun download_with_age_verification_loop :: "browser \<Rightarrow> string list \<Rightarrow> dl_state \<Rightarrow> dl_state" where
  "download_with_age_verification_loop env [] st = st"
| "download_with_age_verification_loop env (url # rest) st =
     download_with_age_verification_loop env rest (download_with_age_verification_step env url st)"


subsection \<open>\<open>download_all\<close> (download\_all.py)\<close>

text \<open>
  The same loop keeping three counters instead of lists. Every failure, whatever its
  cause, adds one to \<open>failed\<close>; navigation errors on the URL itself are swallowed.
\<close>

record tally =
  disk :: filesystem
  downloaded_count :: nat
  failed_count :: nat
  total_size :: nat
  requested :: "string list"

definition download_all_step :: "browser \<Rightarrow> string \<Rightarrow> tally \<Rightarrow> tally" where
  "download_all_step env url t =
     (let filename = replace ''%20'' ''_'' (last (split_on (CHR ''/'') url));
          output_path = path_join ''reference/epstein_files'' filename
      in if exists_path (disk t) output_path \<and> getsize (disk t) output_path > 1000
         then t\<lparr>total_size := total_size t + getsize (disk t) output_path,
                downloaded_count := downloaded_count t + 1\<rparr>
         else
           (let t1 = t\<lparr>requested := requested t @ [url]\<rparr>;
                fail = t1\<lparr>failed_count := failed_count t1 + 1\<rparr>
            in case goto_disclosures env (requested t) of
                 Some e \<Rightarrow> fail
               | None \<Rightarrow>
                  (case evaluate env (requested t) url of
                     Raised e \<Rightarrow> fail
                   | ErrorDict e \<Rightarrow> fail
                   | OtherResult \<Rightarrow> fail
                   | StrResult r \<Rightarrow>
                       if CHR '','' \<in> set r
                       then (case split_on (CHR '','') r of
                               _ # b # _ \<Rightarrow>
                                 (case b64decode env b of
                                    Inl e \<Rightarrow> fail
                                  | Inr data \<Rightarrow>
                                      if take 4 data = ''%PDF''
                                      then t1\<lparr>disk := (disk t1)(output_path \<mapsto> data),
                                              total_size := total_size t1 + length data,
                                              downloaded_count := downloaded_count t1 + 1\<rparr>
                                      else fail)
                             | _ \<Rightarrow> fail)
                       else fail)))"

fun download_all_loop :: "browser \<Rightarrow> string list \<Rightarrow> tally \<Rightarrow> tally" where
  "download_all_loop env [] t = t"
| "download_all_loop env (url # rest) t = download_all_loop env rest (download_all_step env url t)"

text \<open>
  The function from the manifest's \<open>pdfs\<close> on. The summary divides by \<open>len(pdfs)\<close>,
  so an empty manifest ends in \<open>ZeroDivisionError\<close> after the (empty) loop.
\<close>

definition download_all :: "browser \<Rightarrow> string list \<Rightarrow> filesystem \<Rightarrow> py_error + tally" where
  "download_all env pdfs files =
     (let t = download_all_loop env pdfs
                \<lparr>disk = files, downloaded_count = 0, failed_count = 0, total_size = 0, requested = []\<rparr>
      in if pdfs = [] then Inl ZeroDivisionError else Inr t)"

subsection \<open>Loading persisted state\<close>

text \<open>
  \<open>json.load\<close> is a parameter: it gives the parsed value of a file's text, or
  \<open>None\<close> where it raises \<open>JSONDecodeError\<close>. A JSON object is the parsed dict.
\<close>

datatype json = JNull | JBool bool | JNum int | JString string | JArray "json list"
  | JObject "(string \<times> json) list"

text \<open>\<open>state.get('pdfs', [])\<close>: only a dict has \<open>get\<close>.\<close>

definition get_pdfs :: "json \<Rightarrow> py_error + json" where
  "get_pdfs state =
     (case state of
        JObject members \<Rightarrow> Inr (case map_of members ''pdfs'' of None \<Rightarrow> JArray [] | Some v \<Rightarrow> v)
      | _ \<Rightarrow> Inl AttributeError)"

text \<open>
  \<open>load_discovery_state\<close> (download\_orchestrator.py): the \<open>except\<close> clause names
  \<open>FileNotFoundError\<close> only.
\<close>

definition load_discovery_state :: "(string \<Rightarrow> json option) \<Rightarrow> filesystem \<Rightarrow> string \<Rightarrow> py_error + json" where
  "load_discovery_state json_load files state_path =
     (case files state_path of
        None \<Rightarrow> Inr (JArray [])
      | Some content \<Rightarrow>
          (case json_load content of
             None \<Rightarrow> Inl JSONDecodeError
           | Some state \<Rightarrow> get_pdfs state))"

text \<open>
  The \<open>--skip-discovery\<close> branch of \<open>main\<close> (download\_all\_epstein.py): without a
  manifest file \<open>main\<close> prints a message and returns (\<open>Inr None\<close>); otherwise it goes
  on with the manifest's \<open>pdfs\<close>.
\<close>

definition main_load_manifest :: "(string \<Rightarrow> json option) \<Rightarrow> filesystem \<Rightarrow> py_error + json option" where
  "main_load_manifest json_load files =
     (case files ''reference/epstein_manifest.json'' of
        None \<Rightarrow> Inr None
      | Some content \<Rightarrow>
          (case json_load content of
             None \<Rightarrow> Inl JSONDecodeError
           | Some manifest \<Rightarrow>
               (case get_pdfs manifest of Inl e \<Rightarrow> Inl e | Inr pdfs \<Rightarrow> Inr (Some pdfs))))"

section \<open>The crawlers\<close>

text \<open>
  Everything a crawl step asks of the outside world is a field of \<open>web\<close>: the
  subprocesses (\<open>curl\<close>, \<open>htmlq\<close>, \<open>html2text\<close>, \<open>sed\<close>; \<open>None\<close> when
  \<open>subprocess.run\<close> raises), the regular-expression searches, \<open>urljoin\<close>, and the order
  in which \<open>list(set(...))\<close> lists a set. Nothing is assumed about them.
\<close>

datatype completed = Completed (returncode: int) (stdout: string)

record web =
  curl :: "string \<Rightarrow> completed option"
  htmlq_hrefs :: "string \<Rightarrow> completed option"
  htmlq_text :: "string \<Rightarrow> string \<Rightarrow> completed option"
  html2text :: "string \<Rightarrow> completed option"
  sed_tags :: "string \<Rightarrow> completed option"
  list_of_set :: "string list \<Rightarrow> string list"
  urljoin :: "string \<Rightarrow> string \<Rightarrow> string"
  findall_href :: "string \<Rightarrow> string list"
  search_title :: "string \<Rightarrow> string option"
  search_context :: "string \<Rightarrow> string \<Rightarrow> string option"
  sub_tags :: "string \<Rightarrow> string"
  sub_spaces :: "string \<Rightarrow> string"

text \<open>
  The state both tools keep: the depth bound, the visited set, the PDFs found, and
  \<open>fetch_log\<close>, the URL and depth of every \<open>fetch_page\<close> call in order (a log kept by
  the model only).
\<close>

record crawler =
  max_depth :: int
  visited :: "string set"
  discovered_pdfs :: "dict list"
  fetch_log :: "(string \<times> int) list"

definition dict_set :: "string \<Rightarrow> pyval \<Rightarrow> dict \<Rightarrow> dict" where
  "dict_set k v d = (if k \<in> fst ` set d then map (\<lambda>(k', v'). if k' = k then (k', v) else (k', v')) d
                     else d @ [(k, v)])"

text \<open>\<open>fetch_page\<close> of either tool: the output of \<open>curl\<close> when it exits with 0.\<close>

definition fetch_page :: "web \<Rightarrow> string \<Rightarrow> string option" where
  "fetch_page env url =
     (case curl env url of
        None \<Rightarrow> None
      | Some result \<Rightarrow> if returncode result = 0 then Some (stdout result) else None)"

text \<open>The Akamai check of both tools.\<close>

definition akamai_challenge :: "string \<Rightarrow> bool" where
  "akamai_challenge html \<longleftrightarrow> py_in ''bm-verify'' html \<or> py_in ''akamai'' (lower html)"

text \<open>Making an href absolute, as every extraction loop does.\<close>

definition make_absolute :: "web \<Rightarrow> string \<Rightarrow> string \<Rightarrow> string" where
  "make_absolute env base_url url =
     (if startswith url ''/''
      then scheme (urlparse base_url) @ ''://'' @ netloc (urlparse base_url) @ url
      else if \<not> startswith url ''http'' then urljoin env base_url url
      else url)"

definition skipped_href :: "string \<Rightarrow> bool" where
  "skipped_href url \<longleftrightarrow> url = [] \<or> startswith url ''#'' \<or> startswith url ''javascript:''"

subsection \<open>\<open>SpiderTool\<close> (spider\_agent.py)\<close>

datatype page_data = PageData string string nat "dict list" "dict list" string int

record spider_tool = crawler +
  start_url :: string
  crawl_log :: "page_data list"

definition SpiderTool :: "string \<Rightarrow> int \<Rightarrow> spider_tool" where
  "SpiderTool url depth_bound =
     \<lparr>max_depth = depth_bound, visited = {}, discovered_pdfs = [], fetch_log = [],
      start_url = url, crawl_log = []\<rparr>"

definition extract_text_content :: "web \<Rightarrow> string \<Rightarrow> string" where
  "extract_text_content env html =
     (let last_resort = take 2000 (sub_spaces env (sub_tags env html));
          fallback = (case sed_tags env html of
                        None \<Rightarrow> last_resort
                      | Some result \<Rightarrow>
                          if returncode result = 0 then take 2000 (sub_spaces env (stdout result))
                          else last_resort)
      in case html2text env html of
           None \<Rightarrow> fallback
         | Some result \<Rightarrow> if returncode result = 0 then take 2000 (stdout result) else fallback)"

definition link_data :: "string \<Rightarrow> string \<Rightarrow> dict" where
  "link_data url text = [(''url'', VStr url), (''text'', VStr text), (''domain'', VStr (netloc (urlparse url)))]"

text \<open>The loop of \<open>extract_links_regex\<close> over the matches, with its \<open>seen\<close> set.\<close>

fun extract_links_regex_loop ::
  "web \<Rightarrow> string \<Rightarrow> string list \<Rightarrow> string set \<Rightarrow> dict list \<times> dict list \<Rightarrow> dict list \<times> dict list" where
  "extract_links_regex_loop env base_url [] seen acc = acc"
| "extract_links_regex_loop env base_url (m # matches) seen (pdfs, nav_links) =
     (let url = strip m
      in if url = [] \<or> url \<in> seen then extract_links_regex_loop env base_url matches seen (pdfs, nav_links)
         else if startswith url ''#'' \<or> startswith url ''javascript:''
         then extract_links_regex_loop env base_url matches (insert url seen) (pdfs, nav_links)
         else
           (let url' = make_absolute env base_url url
            in if \<not> endswith (netloc (urlparse url')) ''justice.gov''
               then extract_links_regex_loop env base_url matches (insert url seen) (pdfs, nav_links)
               else if endswith (lower url') ''.pdf''
               then extract_links_regex_loop env base_url matches (insert url seen)
                      (pdfs @ [link_data url' []], nav_links)
               else extract_links_regex_loop env base_url matches (insert url seen)
                      (pdfs, nav_links @ [link_data url' []])))"

definition extract_links_regex :: "web \<Rightarrow> string \<Rightarrow> string \<Rightarrow> dict list \<times> dict list" where
  "extract_links_regex env html base_url =
     extract_links_regex_loop env base_url (findall_href env html) {} ([], [])"

text \<open>
  The selector \<open>a[href="<url>"]\<close> handed to \<open>htmlq -t\<close>; the spider escapes the
  double quotes of the URL first.
\<close>

definition href_selector :: "string \<Rightarrow> string" where
  "href_selector url = ''a[href='' @ [CHR 0x22] @ url @ [CHR 0x22] @ '']''"

definition safe_url :: "string \<Rightarrow> string" where
  "safe_url url = replace [CHR 0x22] [CHR 0x5C, CHR 0x22] url"

text \<open>
  The loop of \<open>extract_links_htmlq\<close> over the hrefs; \<open>None\<close> when the subprocess for
  the link text raises, which sends the whole extraction to the regex fallback.
\<close>

fun extract_links_htmlq_loop ::
  "web \<Rightarrow> string \<Rightarrow> string \<Rightarrow> string list \<Rightarrow> dict list \<times> dict list \<Rightarrow> (dict list \<times> dict list) option" where
  "extract_links_htmlq_loop env html base_url [] acc = Some acc"
| "extract_links_htmlq_loop env html base_url (u # urls) (pdfs, nav_links) =
     (let url = strip u
      in if skipped_href url then extract_links_htmlq_loop env html base_url urls (pdfs, nav_links)
         else
           (let url' = make_absolute env base_url url
            in if \<not> endswith (netloc (urlparse url')) ''justice.gov''
               then extract_links_htmlq_loop env html base_url urls (pdfs, nav_links)
               else
                 (case htmlq_text env (href_selector (safe_url url')) html of
                    None \<Rightarrow> None
                  | Some text_result \<Rightarrow>
                      (let text = (if returncode text_result = 0
                                   then take 100 (strip (stdout text_result)) else [])
                       in if endswith (lower url') ''.pdf''
                          then extract_links_htmlq_loop env html base_url urls
                                 (pdfs @ [link_data url' text], nav_links)
                          else extract_links_htmlq_loop env html base_url urls
                                 (pdfs, nav_links @ [link_data url' text])))))"

definition extract_links_htmlq :: "web \<Rightarrow> string \<Rightarrow> string \<Rightarrow> dict list \<times> dict list" where
  "extract_links_htmlq env html base_url =
     (case htmlq_hrefs env html of
        None \<Rightarrow> extract_links_regex env html base_url
      | Some result \<Rightarrow>
          if returncode result \<noteq> 0 then extract_links_regex env html base_url
          else (case extract_links_htmlq_loop env html base_url
                       (list_of_set env (split_on (CHR 0x0A) (strip (stdout result)))) ([], []) of
                  None \<Rightarrow> extract_links_regex env html base_url
                | Some links \<Rightarrow> links))"

text \<open>The \<open>for pdf in pdfs\<close> loop of \<open>crawl_page\<close>: a PDF is stored unless its URL is there already.\<close>

fun store_pdfs :: "dict list \<Rightarrow> dict list \<Rightarrow> string \<Rightarrow> int \<Rightarrow> dict list" where
  "store_pdfs discovered [] url depth = discovered"
| "store_pdfs discovered (pdf # rest) url depth =
     (if url_of pdf \<notin> set (map url_of discovered)
      then store_pdfs (discovered @ [dict_set ''depth'' (VInt depth) (dict_set ''source_page'' (VStr url) pdf)])
             rest url depth
      else store_pdfs discovered rest url depth)"

definition crawl_page :: "web \<Rightarrow> spider_tool \<Rightarrow> string \<Rightarrow> int \<Rightarrow> spider_tool \<times> page_data option" where
  "crawl_page env self url depth =
     (if depth > max_depth self \<or> url \<in> visited self then (self, None)
      else
        (let self1 = self\<lparr>visited := insert url (visited self),
                          fetch_log := fetch_log self @ [(url, depth)]\<rparr>
         in case fetch_page env url of
              None \<Rightarrow> (self1, None)
            | Some html \<Rightarrow>
                if html = [] then (self1, None)
                else if akamai_challenge html then (self1, None)
                else
                  (let title = (case search_title env html of
                                  None \<Rightarrow> ''No title''
                                | Some g \<Rightarrow> strip g);
                       links = extract_links_htmlq env html url;
                       text_content = extract_text_content env html;
                       self2 = self1\<lparr>discovered_pdfs :=
                                 store_pdfs (discovered_pdfs self1) (fst links) url depth\<rparr>;
                       page = PageData url title (length html) (fst links) (snd links) text_content depth
                   in (self2\<lparr>crawl_log := crawl_log self2 @ [page]\<rparr>, Some page))))"

text \<open>
  A crawl session: any sequence of \<open>crawl_page\<close> calls on one spider, each with its
  URL, its depth and the world as it is at that moment. \<open>interactive_crawl\<close> is one
  such driver.
\<close>

fun crawl_pages :: "spider_tool \<Rightarrow> (web \<times> string \<times> int) list \<Rightarrow> spider_tool" where
  "crawl_pages self [] = self"
| "crawl_pages self ((env, url, depth) # calls) = crawl_pages (fst (crawl_page env self url depth)) calls"

subsection \<open>\<open>DiscoveryTool\<close> (discovery\_agent.py)\<close>

datatype discovered_link =
  DiscoveredLink (link_url: string) (link_text: string) (link_context: string) (link_depth: int)
    (link_source_page: string)

record discovery_tool = crawler +
  base_url :: string
  discovered_links :: "discovered_link list"

definition DiscoveryTool :: "string \<Rightarrow> int \<Rightarrow> discovery_tool" where
  "DiscoveryTool url depth_bound =
     \<lparr>max_depth = depth_bound, visited = {}, discovered_pdfs = [], fetch_log = [],
      base_url = url, discovered_links = []\<rparr>"

definition discovery_link :: "string \<Rightarrow> string \<Rightarrow> dict" where
  "discovery_link url text =
     [(''url'', VStr url), (''text'', VStr text),
      (''is_pdf'', VBool (endswith (lower url) ''.pdf'')),
      (''domain'', VStr (netloc (urlparse url)))]"

text \<open>
  The loop of \<open>extract_links_with_htmlq\<close>: an exception of the subprocess for the
  link text ends the loop, and the links gathered so far are returned.
\<close>

fun extract_links_with_htmlq_loop :: "web \<Rightarrow> string \<Rightarrow> string \<Rightarrow> string list \<Rightarrow> dict list \<Rightarrow> dict list" where
  "extract_links_with_htmlq_loop env html page_url [] links = links"
| "extract_links_with_htmlq_loop env html page_url (u # urls) links =
     (let url = strip u
      in if \<not> skipped_href url
         then (let url' = make_absolute env page_url url
               in case htmlq_text env (href_selector url') html of
                    None \<Rightarrow> links
                  | Some text_result \<Rightarrow>
                      extract_links_with_htmlq_loop env html page_url urls
                        (links @ [discovery_link url' (take 100 (strip (stdout text_result)))]))
         else extract_links_with_htmlq_loop env html page_url urls links)"

definition extract_links_with_htmlq :: "web \<Rightarrow> string \<Rightarrow> string \<Rightarrow> dict list" where
  "extract_links_with_htmlq env html page_url =
     (case htmlq_hrefs env html of
        None \<Rightarrow> []
      | Some result \<Rightarrow>
          if returncode result = 0
          then extract_links_with_htmlq_loop env html page_url
                 (split_on (CHR 0x0A) (strip (stdout result))) []
          else [])"

fun extract_links_with_grep_loop :: "web \<Rightarrow> string \<Rightarrow> string list \<Rightarrow> dict list \<Rightarrow> dict list" where
  "extract_links_with_grep_loop env page_url [] links = links"
| "extract_links_with_grep_loop env page_url (m # matches) links =
     (let url = strip m
      in if \<not> skipped_href url
         then extract_links_with_grep_loop env page_url matches
                (links @ [discovery_link (make_absolute env page_url url) []])
         else extract_links_with_grep_loop env page_url matches links)"

definition extract_links_with_grep :: "web \<Rightarrow> string \<Rightarrow> string \<Rightarrow> dict list" where
  "extract_links_with_grep env html page_url =
     extract_links_with_grep_loop env page_url (findall_href env html) []"

text \<open>Reading a link dict; every link dict is built with these keys.\<close>

definition is_pdf :: "dict \<Rightarrow> bool" where
  "is_pdf l \<longleftrightarrow> dict_get l ''is_pdf'' = Some (VBool True)"

definition domain_of :: "dict \<Rightarrow> string" where
  "domain_of l = (case dict_get l ''domain'' of Some (VStr d) \<Rightarrow> d | _ \<Rightarrow> [])"

definition str_of :: "dict \<Rightarrow> string \<Rightarrow> string" where
  "str_of l k = (case dict_get l k of Some (VStr v) \<Rightarrow> v | _ \<Rightarrow> [])"

definition extract_context :: "web \<Rightarrow> string \<Rightarrow> string \<Rightarrow> string" where
  "extract_context env html url =
     (case search_context env html url of
        Some m \<Rightarrow> take 200 (sub_spaces env (sub_tags env m))
      | None \<Rightarrow> [])"

text \<open>The \<open>for link in nav_links\<close> loop of \<open>discover_from_page\<close>.\<close>

fun store_links ::
  "web \<Rightarrow> string \<Rightarrow> string \<Rightarrow> int \<Rightarrow> discovered_link list \<Rightarrow> dict list \<Rightarrow> discovered_link list" where
  "store_links env html url depth discovered [] = discovered"
| "store_links env html url depth discovered (l # rest) =
     (if str_of l ''url'' \<notin> set (map link_url discovered)
      then store_links env html url depth
             (discovered @ [DiscoveredLink (str_of l ''url'') (str_of l ''text'')
                              (extract_context env html (str_of l ''url'')) depth url])
             rest
      else store_links env html url depth discovered rest)"

text \<open>What \<open>discover_from_page\<close> returns: its dict by \<open>status\<close>.\<close>

record page_report =
  report_depth :: int
  page_title :: string
  pdf_count :: nat
  nav_link_count :: nat
  external_link_count :: nat
  report_pdfs :: "dict list"
  report_nav_links :: "dict list"
  report_external_links :: "dict list"
  html_size :: nat

datatype discovery_result = Skipped | FetchError | Blocked string | Success page_report

definition url_and_text :: "dict \<Rightarrow> dict" where
  "url_and_text l = [(''url'', VStr (str_of l ''url'')), (''text'', VStr (str_of l ''text''))]"

definition discover_from_page ::
  "web \<Rightarrow> discovery_tool \<Rightarrow> string \<Rightarrow> int \<Rightarrow> discovery_tool \<times> discovery_result" where
  "discover_from_page env self url depth =
     (if depth > max_depth self \<or> url \<in> visited self then (self, Skipped)
      else
        (let self1 = self\<lparr>visited := insert url (visited self),
                          fetch_log := fetch_log self @ [(url, depth)]\<rparr>
         in case fetch_page env url of
              None \<Rightarrow> (self1, FetchError)
            | Some html \<Rightarrow>
                if html = [] then (self1, FetchError)
                else if akamai_challenge html then (self1, Blocked (take 500 html))
                else
                  (let links0 = extract_links_with_htmlq env html url;
                       links = (if links0 = [] then extract_links_with_grep env html url else links0);
                       pdfs = filter is_pdf links;
                       nav_links = filter (\<lambda>l. \<not> is_pdf l \<and> endswith (domain_of l) ''justice.gov'') links;
                       external_links =
                         filter (\<lambda>l. \<not> is_pdf l \<and> \<not> endswith (domain_of l) ''justice.gov'') links;
                       self2 = self1\<lparr>discovered_pdfs := discovered_pdfs self1 @
                                 map (\<lambda>pdf. dict_set ''depth'' (VInt depth)
                                               (dict_set ''source_page'' (VStr url) pdf)) pdfs\<rparr>;
                       self3 = self2\<lparr>discovered_links :=
                                 store_links env html url depth (discovered_links self2) nav_links\<rparr>
                   in (self3,
                       Success \<lparr>report_depth = depth,
                                page_title = (case search_title env html of
                                                None \<Rightarrow> ''No title''
                                              | Some g \<Rightarrow> strip g),
                                pdf_count = length pdfs,
                                nav_link_count = length nav_links,
                                external_link_count = length external_links,
                                report_pdfs = take 10 pdfs,
                                report_nav_links = map url_and_text (take 20 nav_links),
                                report_external_links = map url_and_text (take 10 external_links),
                                html_size = length html\<rparr>))))"

fun discover_pages :: "discovery_tool \<Rightarrow> (web \<times> string \<times> int) list \<Rightarrow> discovery_tool" where
  "discover_pages self [] = self"
| "discover_pages self ((env, url, depth) # calls) =
     discover_pages (fst (discover_from_page env self url depth)) calls"

section \<open>Notions and examples for the statements\<close>

subsection \<open>The download loops\<close>

text \<open>The skip test of the three scripts that look at the size: a file of more than 1000 bytes.\<close>

definition plausible_file :: "filesystem \<Rightarrow> string \<Rightarrow> bool" where
  "plausible_file files p \<longleftrightarrow> exists_path files p \<and> getsize files p > 1000"

text \<open>The output path of a URL and the entry appended when it is skipped, by script.\<close>

definition orchestrator_path :: "string \<Rightarrow> nat \<Rightarrow> string \<Rightarrow> string" where
  "orchestrator_path output_dir i url = path_join output_dir (orchestrator_filename i url)"

definition orchestrator_exists_entry :: "string \<Rightarrow> nat \<Rightarrow> string \<Rightarrow> dict" where
  "orchestrator_exists_entry output_dir i url =
     [(''url'', VStr url), (''filename'', VStr (orchestrator_filename i url)),
      (''status'', VStr ''already_exists''), (''path'', VStr (orchestrator_path output_dir i url))]"

definition epstein_path :: "string \<Rightarrow> string" where
  "epstein_path url = path_join epstein_dir (epstein_output_filename url)"

definition already_exists_entry :: "string \<Rightarrow> dict" where
  "already_exists_entry url =
     [(''url'', VStr url), (''filename'', VStr (epstein_output_filename url)),
      (''status'', VStr ''already_exists''), (''path'', VStr (epstein_path url))]"

definition verification_path :: "string \<Rightarrow> string" where
  "verification_path url = path_join ''reference/epstein_files'' (verification_filename url)"


text \<open>The state and the counters a call starts from, on the files \<open>files\<close>.\<close>

definition fresh_state :: "filesystem \<Rightarrow> dl_state" where
  "fresh_state files = \<lparr>fs = files, downloaded = [], failed = [], fetched = []\<rparr>"

definition fresh_tally :: "filesystem \<Rightarrow> tally" where
  "fresh_tally files =
     \<lparr>disk = files, downloaded_count = 0, failed_count = 0, total_size = 0, requested = []\<rparr>"





subsection \<open>The crawlers\<close>

text \<open>The \<open>depth\<close> a stored PDF carries, and the two entries \<open>crawl_page\<close> adds to a link dict.\<close>

definition depth_of :: "dict \<Rightarrow> int option" where
  "depth_of p = (case dict_get p ''depth'' of Some (VInt d) \<Rightarrow> Some d | _ \<Rightarrow> None)"

definition with_provenance :: "string \<Rightarrow> int \<Rightarrow> dict \<Rightarrow> dict" where
  "with_provenance url depth pdf = dict_set ''depth'' (VInt depth) (dict_set ''source_page'' (VStr url) pdf)"

text \<open>
  The invariant behind the depth bound: every stored PDF, every stored navigation
  link and every fetch carries a depth of at most \<open>max_depth\<close>.
\<close>

definition depth_bounded :: "'a crawler_scheme \<Rightarrow> bool" where
  "depth_bounded self \<longleftrightarrow>
     (\<forall>p \<in> set (discovered_pdfs self). \<exists>d. depth_of p = Some d \<and> d \<le> max_depth self) \<and>
     (\<forall>(u, d) \<in> set (fetch_log self). d \<le> max_depth self)"

definition links_bounded :: "discovery_tool \<Rightarrow> bool" where
  "links_bounded self \<longleftrightarrow> (\<forall>l \<in> set (discovered_links self). link_depth l \<le> max_depth self)"

text \<open>
  The invariant behind the visited set: no URL was fetched twice, and the fetched URLs
  are exactly the visited ones.
\<close>

definition fetched_once :: "'a crawler_scheme \<Rightarrow> bool" where
  "fetched_once self \<longleftrightarrow>
     distinct (map fst (fetch_log self)) \<and> set (map fst (fetch_log self)) = visited self"

text \<open>
  The classification the extraction loops of the spider apply to one href, written as
  one function: white space is stripped; an empty href, a fragment and a
  \<open>javascript:\<close> URL are skipped; the href is made absolute; a URL whose network
  location does not end in \<open>justice.gov\<close> is skipped; what is left is a document when
  the whole URL, lowercased, ends in \<open>.pdf\<close>, and a navigation link otherwise.
\<close>

datatype link_class = Skip | Document string | InternalNav string

definition classify :: "web \<Rightarrow> string \<Rightarrow> string \<Rightarrow> link_class" where
  "classify env href page_url =
     (let h = strip href
      in if skipped_href h then Skip
         else (let url = make_absolute env page_url h
               in if \<not> endswith (netloc (urlparse url)) ''justice.gov'' then Skip
                  else if endswith (lower url) ''.pdf'' then Document url
                  else InternalNav url))"

definition document_url :: "link_class \<Rightarrow> string option" where
  "document_url c = (case c of Document u \<Rightarrow> Some u | _ \<Rightarrow> None)"

definition nav_url :: "link_class \<Rightarrow> string option" where
  "nav_url c = (case c of InternalNav u \<Rightarrow> Some u | _ \<Rightarrow> None)"

subsection \<open>A concrete browser and concrete files\<close>

text \<open>
  A site that answers 404 for one URL, serves an HTML page under a \<open>.pdf\<close> name for
  another, and the nine bytes \<open>%PDF-1.4\<close> and a line feed for every other URL. The
  decoder knows the base-64 text of these two bodies.
\<close>

definition example_browser :: browser where
  "example_browser =
     \<lparr>evaluate = (\<lambda>earlier url.
         if url = ''https://www.justice.gov/files/missing.pdf'' then ErrorDict ''HTTP 404''
         else if url = ''https://www.justice.gov/files/page.pdf''
         then StrResult ''data:text/html;base64,PGh0bWw+''
         else StrResult ''data:application/pdf;base64,JVBERi0xLjQK''),
       b64decode = (\<lambda>s.
         if s = ''JVBERi0xLjQK'' then Inr (''%PDF-1.4'' @ [CHR 0x0A])
         else if s = ''PGh0bWw+'' then Inr ''<html>''
         else Inl ''Incorrect padding''),
       goto_disclosures = (\<lambda>earlier. None),
       goto_url = (\<lambda>earlier url. None)\<rparr>"

text \<open>Two URLs with the same last path segment, and a PDF of 2004 bytes.\<close>

definition dataset1_url :: string where
  "dataset1_url = ''https://www.justice.gov/epstein/files/DataSet%201/EFTA00000001.pdf''"

definition other_url :: string where
  "other_url = ''https://www.justice.gov/other/EFTA00000001.pdf''"

definition big_pdf :: string where
  "big_pdf = ''%PDF'' @ replicate 2000 (CHR ''0'')"

text \<open>A disk on which \<open>dataset1_url\<close> was downloaded before, under each script's name for it.\<close>

definition example_files :: filesystem where
  "example_files =
     [''reference/epstein_files/dataset_1_EFTA00000001.pdf'' \<mapsto> big_pdf,
      ''reference/EFTA00000001.pdf'' \<mapsto> big_pdf,
      ''reference/epstein_files/EFTA00000001.pdf'' \<mapsto> big_pdf]"



text \<open>A parser that accepts the text \<open>{}\<close> and rejects everything else.\<close>

definition example_json_load :: "string \<Rightarrow> json option" where
  "example_json_load content = (if content = ''{}'' then Some (JObject []) else None)"

subsection \<open>A concrete web page\<close>

text \<open>
  A world with one page: \<open>curl\<close> fetches \<open>https://example.justice.gov/a\<close> and fails
  with exit code 6 on every other URL; \<open>htmlq\<close> prints the given hrefs and no link
  text; neither \<open>html2text\<close> nor \<open>sed\<close> is installed; a set is listed in the order
  of first occurrence.
\<close>

definition page_web :: "string \<Rightarrow> web" where
  "page_web hrefs =
     \<lparr>curl = (\<lambda>url. if url = ''https://example.justice.gov/a''
                      then Some (Completed 0 ''<html><title>A</title></html>'')
                      else Some (Completed 6 [])),
      htmlq_hrefs = (\<lambda>html. Some (Completed 0 hrefs)),
      htmlq_text = (\<lambda>selector html. Some (Completed 0 [])),
      html2text = (\<lambda>html. None),
      sed_tags = (\<lambda>html. None),
      list_of_set = remdups,
      urljoin = (\<lambda>base url. base @ ''/'' @ url),
      findall_href = (\<lambda>html. []),
      search_title = (\<lambda>html. Some ''A''),
      search_context = (\<lambda>html url. None),
      sub_tags = (\<lambda>s. s),
      sub_spaces = (\<lambda>s. s)\<rparr>"

text \<open>
  The page of the scenario \<open>https://example.justice.gov/a\<close>, with its PDF linked
  twice: the PDF, a navigation link, an external link, the PDF again.
\<close>

definition example_web :: web where
  "example_web =
     page_web (''https://example.justice.gov/x.pdf'' @ [CHR 0x0A] @ ''/b'' @ [CHR 0x0A] @
               ''https://other.com/c'' @ [CHR 0x0A] @ ''https://example.justice.gov/x.pdf'' @ [CHR 0x0A])"

text \<open>A session of four calls: the seed, a page that cannot be fetched, the seed again, a page too deep.\<close>

definition example_calls :: "(web \<times> string \<times> int) list" where
  "example_calls =
     [(example_web, ''https://example.justice.gov/a'', 0),
      (example_web, ''https://example.justice.gov/b'', 1),
      (example_web, ''https://example.justice.gov/a'', 1),
      (example_web, ''https://example.justice.gov/deep'', 2)]"

definition example_hrefs :: "string list" where
  "example_hrefs = [''https://example.justice.gov/x.pdf'', '' /b'', ''https://other.com/c'', ''#top'']"

section \<open>Properties\<close>

subsection \<open>Strings and dicts\<close>

lemma split_on_not_Nil: "split_on c s \<noteq> []"
  by (induction s) (auto split: list.splits)

lemma split_on_no_sep: "c \<notin> set s \<Longrightarrow> split_on c s = [s]"
  by (induction s) auto

lemma split_on_sep: "c \<in> set s \<Longrightarrow> \<exists>h b rest. split_on c s = h # b # rest"
proof (induction s)
  case Nil
  then show ?case by simp
next
  case (Cons a s)
  show ?case
  proof (cases "a = c")
    case True
    then show ?thesis
      using split_on_not_Nil [of c s] by (cases "split_on c s") auto
  next
    case False
    with Cons.prems have "c \<in> set s" by simp
    then obtain h b rest where "split_on c s = h # b # rest"
      using Cons.IH by blast
    with False show ?thesis by simp
  qed
qed

lemma split_on_two_parts:
  assumes "split_on c s = h # b # rest"
  shows "c \<in> set s"
proof (rule ccontr)
  assume "c \<notin> set s"
  then have "split_on c s = [s]" by (rule split_on_no_sep)
  with assms show False by simp
qed

lemma dict_get_dict_set: "dict_get (dict_set k v d) k = Some v"
proof (cases "k \<in> fst ` set d")
  case True
  then show ?thesis
    by (induction d) (auto simp: dict_set_def dict_get_def)
next
  case False
  then have "map_of d k = None"
    by (simp add: map_of_eq_None_iff)
  then show ?thesis
    using False by (simp add: dict_set_def dict_get_def map_add_def)
qed

lemma dict_get_dict_set_other:
  assumes "k' \<noteq> k"
  shows "dict_get (dict_set k v d) k' = dict_get d k'"
proof (cases "k \<in> fst ` set d")
  case True
  have "map_of (map (\<lambda>(a, b). if a = k then (a, v) else (a, b)) d) k' = map_of d k'"
    using assms by (induction d) auto
  with True show ?thesis by (simp add: dict_set_def dict_get_def)
next
  case False
  with assms show ?thesis
    by (simp add: dict_set_def dict_get_def map_add_def split: option.splits)
qed

lemma with_provenance_fun:
  "(\<lambda>pdf. dict_set ''depth'' (VInt depth) (dict_set ''source_page'' (VStr url) pdf)) =
     with_provenance url depth"
  by (simp add: fun_eq_iff with_provenance_def)

lemma depth_of_with_provenance: "depth_of (with_provenance url depth pdf) = Some depth"
  by (simp add: depth_of_def with_provenance_def dict_get_dict_set)

lemma url_of_with_provenance: "url_of (with_provenance url depth pdf) = url_of pdf"
  by (simp add: url_of_def with_provenance_def dict_get_dict_set_other)

lemma url_of_link_data: "url_of (link_data url text) = Some (VStr url)"
  by (simp add: url_of_def link_data_def dict_get_def)

subsection \<open>Loops as folds\<close>

lemma foldl_invariant:
  assumes "P st" and "\<And>st x. P st \<Longrightarrow> P (step st x)"
  shows "P (foldl step st xs)"
  using assms(1) by (induction xs arbitrary: st) (auto intro: assms(2))

lemma download_all_pdfs_loop_foldl:
  "download_all_pdfs_loop env urls st = foldl (\<lambda>st u. download_all_pdfs_step env u st) st urls"
  by (induction urls arbitrary: st) auto

lemma download_with_age_verification_loop_foldl:
  "download_with_age_verification_loop env urls st =
     foldl (\<lambda>st u. download_with_age_verification_step env u st) st urls"
  by (induction urls arbitrary: st) auto

lemma download_all_loop_foldl:
  "download_all_loop env urls t = foldl (\<lambda>t u. download_all_step env u t) t urls"
  by (induction urls arbitrary: t) auto

subsection \<open>The example files\<close>

lemma dataset1_paths:
  "epstein_output_filename dataset1_url = ''dataset_1_EFTA00000001.pdf''"
  "epstein_path dataset1_url = ''reference/epstein_files/dataset_1_EFTA00000001.pdf''"
  "orchestrator_filename i dataset1_url = ''EFTA00000001.pdf''"
  "orchestrator_path ''reference'' i dataset1_url = ''reference/EFTA00000001.pdf''"
  "verification_filename dataset1_url = ''EFTA00000001.pdf''"
  "verification_path dataset1_url = ''reference/epstein_files/EFTA00000001.pdf''"
  unfolding epstein_path_def orchestrator_path_def verification_path_def orchestrator_filename_def
    dataset1_url_def
  by code_simp+

lemma other_url_paths:
  "basename (path (urlparse dataset1_url)) = ''EFTA00000001.pdf''"
  "basename (path (urlparse other_url)) = ''EFTA00000001.pdf''"
  "last (split_on (CHR ''/'') dataset1_url) = ''EFTA00000001.pdf''"
  "last (split_on (CHR ''/'') other_url) = ''EFTA00000001.pdf''"
  "endswith ''EFTA00000001.pdf'' ''.pdf''"
  unfolding dataset1_url_def other_url_def by code_simp+

lemma example_files_plausible:
  "plausible_file example_files ''reference/epstein_files/dataset_1_EFTA00000001.pdf''"
  "plausible_file example_files ''reference/EFTA00000001.pdf''"
  "plausible_file example_files ''reference/epstein_files/EFTA00000001.pdf''"
  "getsize example_files ''reference/epstein_files/dataset_1_EFTA00000001.pdf'' = 2004"
  "getsize example_files ''reference/epstein_files/EFTA00000001.pdf'' = 2004"
  by (simp_all add: plausible_file_def exists_path_def getsize_def example_files_def big_pdf_def)

subsection \<open>One iteration of \<open>DownloadOrchestrator.download_pdfs\<close>, and its loop\<close>

lemma download_pdfs_step_skip:
  assumes "exists_path (fs st) (orchestrator_path output_dir i url)"
  shows "download_pdfs_step env output_dir i url st =
           st\<lparr>downloaded := downloaded st @ [orchestrator_exists_entry output_dir i url]\<rparr>"
  using assms
  by (simp add: download_pdfs_step_def Let_def orchestrator_path_def orchestrator_exists_entry_def)



lemma download_pdfs_step_exists:
  "exists_path (fs st) p \<Longrightarrow> exists_path (fs (download_pdfs_step env out i url st)) p"
  by (auto simp: download_pdfs_step_def Let_def exists_path_def
      split: response.splits list.splits sum.splits)



lemma download_pdfs_loop_exists:
  "exists_path (fs st) p \<Longrightarrow> exists_path (fs (download_pdfs_loop env out i urls st)) p"
  by (induction urls arbitrary: i st) (auto intro: download_pdfs_step_exists)

lemma orchestrator_filename_pdf:
  assumes "endswith (basename (path (urlparse url))) ''.pdf''"
  shows "orchestrator_filename i url = basename (path (urlparse url))"
proof -
  from assms have "basename (path (urlparse url)) \<noteq> []"
    by (auto simp: endswith_def)
  with assms show ?thesis
    by (simp add: orchestrator_filename_def Let_def)
qed

subsection \<open>One iteration of \<open>download_all_pdfs\<close>\<close>

lemma download_all_pdfs_step_skip:
  assumes "plausible_file (fs st) (epstein_path url)"
  shows "download_all_pdfs_step env url st = st\<lparr>downloaded := downloaded st @ [already_exists_entry url]\<rparr>"
  using assms
  by (simp add: download_all_pdfs_step_def Let_def plausible_file_def epstein_path_def
      already_exists_entry_def)






text \<open>
  The check of the first four bytes: a body that does not begin with \<open>%PDF\<close> ends as
  a \<open>failed\<close> entry and changes no file, and whatever the step writes begins with
  \<open>%PDF\<close>.
\<close>

lemma download_all_pdfs_step_rejects_non_pdf:
  assumes "\<not> plausible_file (fs st) (epstein_path url)"
    and "evaluate env (fetched st) url = StrResult r"
    and "split_on (CHR '','') r = header # base64_data # rest"
    and "b64decode env base64_data = Inr binary_data"
    and "take 4 binary_data \<noteq> ''%PDF''"
  shows "download_all_pdfs_step env url st =
           st\<lparr>fetched := fetched st @ [url],
              failed := failed st @
                [failed_entry url (epstein_output_filename url) ''Not a valid PDF file'']\<rparr>"
proof -
  have "r \<noteq> [] \<and> CHR '','' \<in> set r"
    using split_on_two_parts [OF assms(3)] by auto
  then show ?thesis
    using assms
    by (simp add: download_all_pdfs_step_def Let_def plausible_file_def epstein_path_def)
qed

lemma download_all_pdfs_step_writes_pdf_only:
  "fs (download_all_pdfs_step env url st) p = fs st p \<or>
   (\<exists>data. fs (download_all_pdfs_step env url st) p = Some data \<and> take 4 data = ''%PDF'')"
  by (auto simp: download_all_pdfs_step_def Let_def split: response.splits list.splits sum.splits)

lemma download_all_pdfs_loop_writes_pdf_only:
  "fs (download_all_pdfs_loop env urls st) p = fs st p \<or>
   (\<exists>data. fs (download_all_pdfs_loop env urls st) p = Some data \<and> take 4 data = ''%PDF'')"
  unfolding download_all_pdfs_loop_foldl
proof (rule foldl_invariant [where P = "\<lambda>st' :: dl_state. fs st' p = fs st p \<or>
    (\<exists>data. fs st' p = Some data \<and> take 4 data = ''%PDF'')"])
  show "fs st p = fs st p \<or> (\<exists>data. fs st p = Some data \<and> take 4 data = ''%PDF'')"
    by simp
next
  fix st' :: dl_state and u
  assume "fs st' p = fs st p \<or> (\<exists>data. fs st' p = Some data \<and> take 4 data = ''%PDF'')"
  then show "fs (download_all_pdfs_step env u st') p = fs st p \<or>
    (\<exists>data. fs (download_all_pdfs_step env u st') p = Some data \<and> take 4 data = ''%PDF'')"
    using download_all_pdfs_step_writes_pdf_only [of env u st' p] by auto
qed

subsection \<open>One iteration of \<open>download_with_age_verification\<close>\<close>







lemma download_with_age_verification_step_rejects_non_pdf:
  assumes "\<not> plausible_file (fs st) (verification_path url)"
    and "goto_disclosures env (fetched st) = None"
    and "goto_url env (fetched st) url = None"
    and "evaluate env (fetched st) url = StrResult r"
    and "split_on (CHR '','') r = header # base64_data # rest"
    and "b64decode env base64_data = Inr binary_data"
    and "take 4 binary_data \<noteq> ''%PDF''"
  shows "download_with_age_verification_step env url st =
           st\<lparr>fetched := fetched st @ [url],
              failed := failed st @
                [failed_entry url (verification_filename url) ''Not a valid PDF'']\<rparr>"
proof -
  have "r \<noteq> [] \<and> CHR '','' \<in> set r"
    using split_on_two_parts [OF assms(5)] by auto
  then show ?thesis
    using assms
    by (simp add: download_with_age_verification_step_def Let_def plausible_file_def verification_path_def)
qed

lemma download_with_age_verification_step_writes_pdf_only:
  "fs (download_with_age_verification_step env url st) p = fs st p \<or>
   (\<exists>data. fs (download_with_age_verification_step env url st) p = Some data \<and> take 4 data = ''%PDF'')"
  by (auto simp: download_with_age_verification_step_def Let_def
      split: response.splits list.splits sum.splits option.splits)

lemma download_with_age_verification_loop_writes_pdf_only:
  "fs (download_with_age_verification_loop env urls st) p = fs st p \<or>
   (\<exists>data. fs (download_with_age_verification_loop env urls st) p = Some data \<and>
      take 4 data = ''%PDF'')"
  unfolding download_with_age_verification_loop_foldl
proof (rule foldl_invariant [where P = "\<lambda>st' :: dl_state. fs st' p = fs st p \<or>
    (\<exists>data. fs st' p = Some data \<and> take 4 data = ''%PDF'')"])
  show "fs st p = fs st p \<or> (\<exists>data. fs st p = Some data \<and> take 4 data = ''%PDF'')"
    by simp
next
  fix st' :: dl_state and u
  assume "fs st' p = fs st p \<or> (\<exists>data. fs st' p = Some data \<and> take 4 data = ''%PDF'')"
  then show "fs (download_with_age_verification_step env u st') p = fs st p \<or>
    (\<exists>data. fs (download_with_age_verification_step env u st') p = Some data \<and>
       take 4 data = ''%PDF'')"
    using download_with_age_verification_step_writes_pdf_only [of env u st' p] by auto
qed

subsection \<open>One iteration of \<open>download_all\<close>, and its loop\<close>

lemma download_all_step_skip:
  assumes "plausible_file (disk t) (verification_path url)"
  shows "download_all_step env url t =
           t\<lparr>total_size := total_size t + getsize (disk t) (verification_path url),
             downloaded_count := downloaded_count t + 1\<rparr>"
  using assms
  by (simp add: download_all_step_def Let_def plausible_file_def verification_path_def
      verification_filename_def)

lemma download_all_step_disk:
  assumes "plausible_file (disk t) p"
  shows "disk (download_all_step env url t) p = disk t p"
proof (cases "plausible_file (disk t) (verification_path url)")
  case True
  then show ?thesis by (simp add: download_all_step_skip)
next
  case False
  with assms have "p \<noteq> verification_path url" by auto
  then show ?thesis
    by (auto simp: download_all_step_def Let_def verification_path_def verification_filename_def
        split: response.splits list.splits sum.splits option.splits)
qed

lemma download_all_step_plausible:
  "plausible_file (disk t) p \<Longrightarrow> plausible_file (disk (download_all_step env url t)) p"
  using download_all_step_disk [of t p env url]
  by (simp add: plausible_file_def exists_path_def getsize_def)

lemma download_all_loop_plausible:
  "plausible_file (disk t) p \<Longrightarrow> plausible_file (disk (download_all_loop env urls t)) p"
  unfolding download_all_loop_foldl
  by (rule foldl_invariant) (auto intro: download_all_step_plausible)

subsection \<open>Files and records over a whole run\<close>












subsection \<open>Skipping what is on disk\<close>

text \<open>
  C1, as amended. For every URL a download loop processes, in whatever state the loop
  is: if a file exists at the derived output path and its size exceeds 1000 bytes
  (\<open>DownloadOrchestrator.download_pdfs\<close>: if it exists, whatever its size), the
  iteration does not invoke the Downloader (\<open>fetched\<close> and \<open>requested\<close> are
  unchanged) and leaves the disk and the failures unchanged. \<open>download_all_pdfs\<close> and
  \<open>download_pdfs\<close> append an \<open>already_exists\<close> entry holding the URL, the file
  name, the status and the path; \<open>download_all\<close> counts the URL as downloaded and
  adds the size of the file to \<open>total_size\<close>.
\<close>

theorem C1_idempotent_skip:
  "(plausible_file (fs st) (epstein_path url) \<longrightarrow>
      (let st' = download_all_pdfs_step env url st
       in downloaded st' = downloaded st @ [already_exists_entry url] \<and>
          fetched st' = fetched st \<and> fs st' = fs st \<and> failed st' = failed st)) \<and>
   (exists_path (fs st) (orchestrator_path output_dir i url) \<longrightarrow>
      (let st' = download_pdfs_step env output_dir i url st
       in downloaded st' = downloaded st @ [orchestrator_exists_entry output_dir i url] \<and>
          fetched st' = fetched st \<and> fs st' = fs st \<and> failed st' = failed st)) \<and>
   (plausible_file (disk t) (verification_path url) \<longrightarrow>
      (let t' = download_all_step env url t
       in downloaded_count t' = downloaded_count t + 1 \<and>
          total_size t' = total_size t + getsize (disk t) (verification_path url) \<and>
          requested t' = requested t \<and> disk t' = disk t \<and> failed_count t' = failed_count t))"
proof (intro conjI impI)
  assume "plausible_file (fs st) (epstein_path url)"
  then show "let st' = download_all_pdfs_step env url st
       in downloaded st' = downloaded st @ [already_exists_entry url] \<and>
          fetched st' = fetched st \<and> fs st' = fs st \<and> failed st' = failed st"
    by (simp add: download_all_pdfs_step_skip)
next
  assume "exists_path (fs st) (orchestrator_path output_dir i url)"
  then show "let st' = download_pdfs_step env output_dir i url st
       in downloaded st' = downloaded st @ [orchestrator_exists_entry output_dir i url] \<and>
          fetched st' = fetched st \<and> fs st' = fs st \<and> failed st' = failed st"
    by (simp add: download_pdfs_step_skip)
next
  assume "plausible_file (disk t) (verification_path url)"
  then show "let t' = download_all_step env url t
       in downloaded_count t' = downloaded_count t + 1 \<and>
          total_size t' = total_size t + getsize (disk t) (verification_path url) \<and>
          requested t' = requested t \<and> disk t' = disk t \<and> failed_count t' = failed_count t"
    by (simp add: download_all_step_skip)
qed

text \<open>The three hypotheses hold for \<open>dataset1_url\<close> on the example files.\<close>

theorem C1_idempotent_skip_witness:
  "plausible_file (fs (fresh_state example_files)) (epstein_path dataset1_url) \<and>
   exists_path (fs (fresh_state example_files)) (orchestrator_path ''reference'' 1 dataset1_url) \<and>
   plausible_file (disk (fresh_tally example_files)) (verification_path dataset1_url) \<and>
   fetched (download_all_pdfs_step example_browser dataset1_url (fresh_state example_files)) = [] \<and>
   fetched (download_pdfs_step example_browser ''reference'' 1 dataset1_url (fresh_state example_files)) = [] \<and>
   requested (download_all_step example_browser dataset1_url (fresh_tally example_files)) = [] \<and>
   total_size (download_all_step example_browser dataset1_url (fresh_tally example_files)) = 2004"
proof -
  have a: "plausible_file (fs (fresh_state example_files)) (epstein_path dataset1_url)"
    and b: "exists_path (fs (fresh_state example_files)) (orchestrator_path ''reference'' 1 dataset1_url)"
    and c: "plausible_file (disk (fresh_tally example_files)) (verification_path dataset1_url)"
    using example_files_plausible
    by (simp_all add: fresh_state_def fresh_tally_def dataset1_paths plausible_file_def)
  show ?thesis
    using a b c
      C1_idempotent_skip [of "fresh_state example_files" dataset1_url example_browser "''reference''" 1
        "fresh_tally example_files"]
    by (simp add: Let_def fresh_state_def fresh_tally_def dataset1_paths example_files_plausible)
qed

text \<open>
  The claim as stated has the already-exists record carry the existing size. The file
  is there with its 2004 bytes, and the entry appended has no \<open>size\<close> key.
\<close>

theorem C1_record_without_size_counterexample:
  "exists_path example_files (epstein_path dataset1_url) \<and>
   getsize example_files (epstein_path dataset1_url) = 2004 \<and>
   downloaded (download_all_pdfs_step example_browser dataset1_url (fresh_state example_files)) =
     [[(''url'', VStr ''https://www.justice.gov/epstein/files/DataSet%201/EFTA00000001.pdf''),
       (''filename'', VStr ''dataset_1_EFTA00000001.pdf''),
       (''status'', VStr ''already_exists''),
       (''path'', VStr ''reference/epstein_files/dataset_1_EFTA00000001.pdf'')]] \<and>
   map (\<lambda>r. dict_get r ''size'')
     (downloaded (download_all_pdfs_step example_browser dataset1_url (fresh_state example_files))) = [None]"
proof -
  have big: "plausible_file (fs (fresh_state example_files)) (epstein_path dataset1_url)"
    using example_files_plausible by (simp add: fresh_state_def dataset1_paths)
  have "download_all_pdfs_step example_browser dataset1_url (fresh_state example_files) =
      (fresh_state example_files)\<lparr>downloaded := [already_exists_entry dataset1_url]\<rparr>"
    using download_all_pdfs_step_skip [OF big, of example_browser] by (simp add: fresh_state_def)
  then show ?thesis
    using example_files_plausible
    by (simp add: already_exists_entry_def dataset1_paths plausible_file_def dict_get_def)
      (simp add: dataset1_url_def)
qed

subsection \<open>The check of the PDF signature\<close>

text \<open>
  C2 does not hold for \<open>DownloadOrchestrator.download_pdfs\<close>, which writes whatever
  it decodes: the HTML page served under \<open>page.pdf\<close> is written to
  \<open>reference/page.pdf\<close> and recorded as \<open>downloaded\<close>.
\<close>

theorem C2_orchestrator_writes_unverified_payload:
  "(let st' = download_pdfs example_browser ''reference'' [''https://www.justice.gov/files/page.pdf'']
                (new_orchestrator Map.empty)
    in fs st' ''reference/page.pdf'' = Some ''<html>'' \<and>
       downloaded st' =
         [[(''url'', VStr ''https://www.justice.gov/files/page.pdf''), (''filename'', VStr ''page.pdf''),
           (''status'', VStr ''downloaded''), (''size'', VInt 6), (''path'', VStr ''reference/page.pdf'')]] \<and>
       failed st' = [])"
  by code_simp

text \<open>\<open>download_all_pdfs\<close> rejects the same body and writes nothing.\<close>

lemma download_all_pdfs_rejects_html_example:
  "(case download_all_pdfs example_browser [''https://www.justice.gov/files/page.pdf''] Map.empty of
      Inl e \<Rightarrow> False
    | Inr st' \<Rightarrow>
        fs st' ''reference/epstein_files/unknown_page.pdf'' = None \<and>
        downloaded st' = [] \<and>
        failed st' =
          [[(''url'', VStr ''https://www.justice.gov/files/page.pdf''),
            (''filename'', VStr ''unknown_page.pdf''), (''error'', VStr ''Not a valid PDF file'')]])"
  by code_simp

subsection \<open>One entry per URL\<close>




subsection \<open>Running a download twice\<close>





subsection \<open>Colliding file names\<close>

text \<open>
  C10, as amended. In \<open>download_pdfs\<close>, two URLs whose paths share a last segment
  that ends in \<open>.pdf\<close> derive the same file name, whatever their positions in the
  list; so from a state in which the file of the first exists, and after any further
  URLs, the iteration for the second appends the \<open>already_exists\<close> entry and requests
  nothing. In \<open>download_all\<close>, two URLs with the same text after their last slash
  derive the same path; so from a state in which that file has more than 1000 bytes,
  the second URL is counted as downloaded and is not requested.
\<close>

theorem C10_filename_collision:
  "(basename (path (urlparse url1)) = basename (path (urlparse url2)) \<and>
    endswith (basename (path (urlparse url1))) ''.pdf'' \<longrightarrow>
      orchestrator_filename i url1 = orchestrator_filename j url2 \<and>
      (exists_path (fs st) (orchestrator_path output_dir i url1) \<longrightarrow>
         (let st1 = download_pdfs_loop env output_dir k between st;
              st2 = download_pdfs_step env output_dir j url2 st1
          in downloaded st2 = downloaded st1 @ [orchestrator_exists_entry output_dir j url2] \<and>
             fetched st2 = fetched st1 \<and> fs st2 = fs st1 \<and> failed st2 = failed st1))) \<and>
   (last (split_on (CHR ''/'') url1) = last (split_on (CHR ''/'') url2) \<longrightarrow>
      verification_path url1 = verification_path url2 \<and>
      (plausible_file (disk t) (verification_path url1) \<longrightarrow>
         (let t1 = download_all_loop env between t;
              t2 = download_all_step env url2 t1
          in downloaded_count t2 = downloaded_count t1 + 1 \<and>
             requested t2 = requested t1 \<and> disk t2 = disk t1 \<and> failed_count t2 = failed_count t1)))"
proof -
  have names: "orchestrator_filename i url1 = orchestrator_filename j url2"
    if same: "basename (path (urlparse url1)) = basename (path (urlparse url2))"
      and pdf: "endswith (basename (path (urlparse url1))) ''.pdf''"
  proof -
    from same pdf have "endswith (basename (path (urlparse url2))) ''.pdf''" by simp
    then have "orchestrator_filename j url2 = basename (path (urlparse url2))"
      by (rule orchestrator_filename_pdf)
    moreover from pdf have "orchestrator_filename i url1 = basename (path (urlparse url1))"
      by (rule orchestrator_filename_pdf)
    ultimately show ?thesis using same by simp
  qed
  have skipped: "let st1 = download_pdfs_loop env output_dir k between st;
              st2 = download_pdfs_step env output_dir j url2 st1
          in downloaded st2 = downloaded st1 @ [orchestrator_exists_entry output_dir j url2] \<and>
             fetched st2 = fetched st1 \<and> fs st2 = fs st1 \<and> failed st2 = failed st1"
    if "orchestrator_filename i url1 = orchestrator_filename j url2"
      and "exists_path (fs st) (orchestrator_path output_dir i url1)"
  proof -
    from that(2) have "exists_path (fs (download_pdfs_loop env output_dir k between st))
        (orchestrator_path output_dir i url1)"
      by (rule download_pdfs_loop_exists)
    then have "exists_path (fs (download_pdfs_loop env output_dir k between st))
        (orchestrator_path output_dir j url2)"
      using that(1) by (simp add: orchestrator_path_def)
    then show ?thesis
      by (simp add: download_pdfs_step_skip)
  qed
  have paths: "verification_path url1 = verification_path url2"
    if "last (split_on (CHR ''/'') url1) = last (split_on (CHR ''/'') url2)"
    using that by (simp add: verification_path_def verification_filename_def)
  have counted: "let t1 = download_all_loop env between t;
              t2 = download_all_step env url2 t1
          in downloaded_count t2 = downloaded_count t1 + 1 \<and>
             requested t2 = requested t1 \<and> disk t2 = disk t1 \<and> failed_count t2 = failed_count t1"
    if "verification_path url1 = verification_path url2"
      and "plausible_file (disk t) (verification_path url1)"
  proof -
    from that(2) have "plausible_file (disk (download_all_loop env between t)) (verification_path url2)"
      unfolding that(1) by (rule download_all_loop_plausible)
    then show ?thesis
      by (simp add: download_all_step_skip)
  qed
  from names skipped paths counted show ?thesis by blast
qed

text \<open>\<open>dataset1_url\<close> and \<open>other_url\<close> on the example files.\<close>

theorem C10_filename_collision_witness:
  "dataset1_url \<noteq> other_url \<and>
   basename (path (urlparse dataset1_url)) = basename (path (urlparse other_url)) \<and>
   endswith (basename (path (urlparse dataset1_url))) ''.pdf'' \<and>
   exists_path (fs (fresh_state example_files)) (orchestrator_path ''reference'' 1 dataset1_url) \<and>
   last (split_on (CHR ''/'') dataset1_url) = last (split_on (CHR ''/'') other_url) \<and>
   plausible_file (disk (fresh_tally example_files)) (verification_path dataset1_url) \<and>
   orchestrator_filename 1 dataset1_url = orchestrator_filename 2 other_url \<and>
   fetched (download_pdfs_step example_browser ''reference'' 2 other_url (fresh_state example_files)) = [] \<and>
   downloaded (download_pdfs_step example_browser ''reference'' 2 other_url (fresh_state example_files)) =
     [orchestrator_exists_entry ''reference'' 2 other_url] \<and>
   requested (download_all_step example_browser other_url (fresh_tally example_files)) = [] \<and>
   downloaded_count (download_all_step example_browser other_url (fresh_tally example_files)) = 1"
proof -
  have hyps: "basename (path (urlparse dataset1_url)) = basename (path (urlparse other_url))"
    "endswith (basename (path (urlparse dataset1_url))) ''.pdf''"
    "last (split_on (CHR ''/'') dataset1_url) = last (split_on (CHR ''/'') other_url)"
    by (simp_all add: other_url_paths)
  have files: "exists_path (fs (fresh_state example_files)) (orchestrator_path ''reference'' 1 dataset1_url)"
    "plausible_file (disk (fresh_tally example_files)) (verification_path dataset1_url)"
    using example_files_plausible
    by (simp_all add: fresh_state_def fresh_tally_def dataset1_paths plausible_file_def)
  have "dataset1_url \<noteq> other_url"
    by (simp add: dataset1_url_def other_url_def)
  then show ?thesis
    using hyps files
      C10_filename_collision [of dataset1_url other_url 1 2 "fresh_state example_files" "''reference''"
        example_browser 2 "[]" "fresh_tally example_files"]
    by (simp add: Let_def fresh_state_def fresh_tally_def)
qed

text \<open>
  The claim as stated covers every two URLs whose paths share their last segment. With
  the segment \<open>report\<close> the orchestrator names the files by position and fetches
  both; and \<open>download_all\<close> fetches the second \<open>doc.pdf\<close> although the first
  was written, because the file has nine bytes.
\<close>

theorem C10_other_segments_counterexample:
  "basename (path (urlparse ''https://www.justice.gov/a/report'')) =
     basename (path (urlparse ''https://www.justice.gov/b/report'')) \<and>
   (let st' = download_pdfs example_browser ''reference''
                [''https://www.justice.gov/a/report'', ''https://www.justice.gov/b/report'']
                (new_orchestrator Map.empty)
    in map (\<lambda>r. dict_get r ''filename'') (downloaded st') =
         [Some (VStr ''epstein_doc_1.pdf''), Some (VStr ''epstein_doc_2.pdf'')] \<and>
       map (\<lambda>r. dict_get r ''status'') (downloaded st') =
         [Some (VStr ''downloaded''), Some (VStr ''downloaded'')] \<and>
       fetched st' = [''https://www.justice.gov/a/report'', ''https://www.justice.gov/b/report'']) \<and>
   basename (path (urlparse ''https://www.justice.gov/a/doc.pdf'')) =
     basename (path (urlparse ''https://www.justice.gov/b/doc.pdf'')) \<and>
   (let t' = download_all_loop example_browser
               [''https://www.justice.gov/a/doc.pdf'', ''https://www.justice.gov/b/doc.pdf'']
               (fresh_tally Map.empty)
    in requested t' = [''https://www.justice.gov/a/doc.pdf'', ''https://www.justice.gov/b/doc.pdf''] \<and>
       downloaded_count t' = 2 \<and>
       disk t' ''reference/epstein_files/doc.pdf'' = Some (''%PDF-1.4'' @ [CHR 0x0A]))"
  by code_simp

subsection \<open>Loading persisted state\<close>

text \<open>
  C9, as amended. If the state file is missing, \<open>load_discovery_state\<close> returns the
  empty list whatever the parser is, and the \<open>--skip-discovery\<close> branch of \<open>main\<close>
  returns without a manifest.
\<close>

theorem C9_missing_state_file:
  "(files state_path = None \<longrightarrow> load_discovery_state json_load files state_path = Inr (JArray [])) \<and>
   (files ''reference/epstein_manifest.json'' = None \<longrightarrow> main_load_manifest json_load files = Inr None)"
  by (simp add: load_discovery_state_def main_load_manifest_def)

theorem C9_missing_state_file_witness:
  "Map.empty ''reference/discovery_state.json'' = (None :: string option) \<and>
   load_discovery_state example_json_load Map.empty ''reference/discovery_state.json'' = Inr (JArray []) \<and>
   main_load_manifest example_json_load Map.empty = Inr None"
  using C9_missing_state_file [of Map.empty "''reference/discovery_state.json''" example_json_load]
  by simp

text \<open>
  The claim as stated covers a corrupt file too. A state file cut off after its first
  character exists, so \<open>FileNotFoundError\<close> is not raised, and the parser's error
  reaches the caller.
\<close>

theorem C9_corrupt_state_file_counterexample:
  "load_discovery_state example_json_load [''reference/discovery_state.json'' \<mapsto> ''{'']
     ''reference/discovery_state.json'' = Inl JSONDecodeError"
  by (simp add: load_discovery_state_def example_json_load_def)

lemma load_discovery_state_corrupt:
  "files state_path = Some content \<Longrightarrow> json_load content = None \<Longrightarrow>
   load_discovery_state json_load files state_path = Inl JSONDecodeError"
  by (simp add: load_discovery_state_def)

lemma load_discovery_state_without_pdfs:
  "files state_path = Some content \<Longrightarrow> json_load content = Some (JObject members) \<Longrightarrow>
   map_of members ''pdfs'' = None \<Longrightarrow>
   load_discovery_state json_load files state_path = Inr (JArray [])"
  by (simp add: load_discovery_state_def get_pdfs_def)

subsection \<open>Storing PDFs and links\<close>

lemma store_pdfs_extends: "\<exists>new. store_pdfs discovered pdfs url depth = discovered @ new"
proof (induction pdfs arbitrary: discovered)
  case Nil
  show ?case by simp
next
  case (Cons pdf pdfs)
  show ?case
  proof (cases "url_of pdf \<notin> set (map url_of discovered)")
    case True
    obtain new where "store_pdfs (discovered @ [with_provenance url depth pdf]) pdfs url depth =
        (discovered @ [with_provenance url depth pdf]) @ new"
      using Cons.IH by blast
    with True show ?thesis by (simp add: with_provenance_def)
  next
    case False
    then show ?thesis using Cons.IH [of discovered] by simp
  qed
qed

lemma store_pdfs_distinct:
  "distinct (map url_of discovered) \<Longrightarrow> distinct (map url_of (store_pdfs discovered pdfs url depth))"
proof (induction pdfs arbitrary: discovered)
  case Nil
  then show ?case by simp
next
  case (Cons pdf pdfs)
  show ?case
  proof (cases "url_of pdf \<notin> set (map url_of discovered)")
    case True
    with Cons.prems have "distinct (map url_of (discovered @ [with_provenance url depth pdf]))"
      by (simp add: url_of_with_provenance)
    then have "distinct (map url_of (store_pdfs (discovered @ [with_provenance url depth pdf]) pdfs url depth))"
      by (rule Cons.IH)
    with True show ?thesis by (simp add: with_provenance_def)
  next
    case False
    then show ?thesis using Cons.IH [OF Cons.prems] by simp
  qed
qed

lemma store_pdfs_depths:
  assumes "\<forall>p \<in> set discovered. \<exists>d. depth_of p = Some d \<and> d \<le> bound" and "depth \<le> bound"
  shows "\<forall>p \<in> set (store_pdfs discovered pdfs url depth). \<exists>d. depth_of p = Some d \<and> d \<le> bound"
  using assms(1)
proof (induction pdfs arbitrary: discovered)
  case Nil
  then show ?case by simp
next
  case (Cons pdf pdfs)
  show ?case
  proof (cases "url_of pdf \<notin> set (map url_of discovered)")
    case True
    have "\<forall>p \<in> set (discovered @ [with_provenance url depth pdf]). \<exists>d. depth_of p = Some d \<and> d \<le> bound"
      using Cons.prems assms(2) by (auto simp: depth_of_with_provenance)
    then have "\<forall>p \<in> set (store_pdfs (discovered @ [with_provenance url depth pdf]) pdfs url depth).
        \<exists>d. depth_of p = Some d \<and> d \<le> bound"
      by (rule Cons.IH)
    with True show ?thesis by (simp add: with_provenance_def)
  next
    case False
    then show ?thesis using Cons.IH [OF Cons.prems] by simp
  qed
qed

lemma store_links_depths:
  assumes "\<forall>l \<in> set discovered. link_depth l \<le> bound" and "depth \<le> bound"
  shows "\<forall>l \<in> set (store_links env html url depth discovered links). link_depth l \<le> bound"
  using assms(1)
proof (induction links arbitrary: discovered)
  case Nil
  then show ?case by simp
next
  case (Cons l links)
  show ?case
  proof (cases "str_of l ''url'' \<notin> set (map link_url discovered)")
    case True
    let ?new = "DiscoveredLink (str_of l ''url'') (str_of l ''text'')
        (extract_context env html (str_of l ''url'')) depth url"
    have "\<forall>l \<in> set (discovered @ [?new]). link_depth l \<le> bound"
      using Cons.prems assms(2) by auto
    then have "\<forall>l \<in> set (store_links env html url depth (discovered @ [?new]) links). link_depth l \<le> bound"
      by (rule Cons.IH)
    with True show ?thesis by simp
  next
    case False
    then show ?thesis using Cons.IH [OF Cons.prems] by simp
  qed
qed

lemma store_links_distinct:
  "distinct (map link_url discovered) \<Longrightarrow>
   distinct (map link_url (store_links env html url depth discovered links))"
proof (induction links arbitrary: discovered)
  case Nil
  then show ?case by simp
next
  case (Cons l links)
  show ?case
  proof (cases "str_of l ''url'' \<notin> set (map link_url discovered)")
    case True
    let ?new = "DiscoveredLink (str_of l ''url'') (str_of l ''text'')
        (extract_context env html (str_of l ''url'')) depth url"
    from True Cons.prems have "distinct (map link_url (discovered @ [?new]))" by simp
    then have "distinct (map link_url (store_links env html url depth (discovered @ [?new]) links))"
      by (rule Cons.IH)
    with True show ?thesis by simp
  next
    case False
    then show ?thesis using Cons.IH [OF Cons.prems] by simp
  qed
qed

subsection \<open>One call of \<open>crawl_page\<close>\<close>

lemma crawl_page_skip:
  "depth > max_depth self \<or> url \<in> visited self \<Longrightarrow> crawl_page env self url depth = (self, None)"
  by (simp add: crawl_page_def)

lemma crawl_page_max_depth: "max_depth (fst (crawl_page env self url depth)) = max_depth self"
  by (simp add: crawl_page_def Let_def split: option.splits)

lemma crawl_page_visit:
  assumes "depth \<le> max_depth self" and "url \<notin> visited self"
  shows "visited (fst (crawl_page env self url depth)) = insert url (visited self)"
    and "fetch_log (fst (crawl_page env self url depth)) = fetch_log self @ [(url, depth)]"
  using assms by (simp_all add: crawl_page_def Let_def split: option.splits)

lemma crawl_page_pdfs:
  "discovered_pdfs (fst (crawl_page env self url depth)) = discovered_pdfs self \<or>
   (depth \<le> max_depth self \<and>
    (\<exists>pdfs. discovered_pdfs (fst (crawl_page env self url depth)) =
       store_pdfs (discovered_pdfs self) pdfs url depth))"
  by (auto simp: crawl_page_def Let_def split: option.splits)

lemma crawl_page_depth_bounded:
  assumes "depth_bounded self"
  shows "depth_bounded (fst (crawl_page env self url depth))"
proof (cases "depth > max_depth self \<or> url \<in> visited self")
  case True
  with assms show ?thesis by (simp add: crawl_page_skip)
next
  case False
  then have d: "depth \<le> max_depth self" and v: "url \<notin> visited self" by auto
  let ?self' = "fst (crawl_page env self url depth)"
  have log: "\<forall>(u, k) \<in> set (fetch_log ?self'). k \<le> max_depth ?self'"
    using assms d by (auto simp: depth_bounded_def crawl_page_visit [OF d v] crawl_page_max_depth)
  have "\<forall>p \<in> set (discovered_pdfs ?self'). \<exists>k. depth_of p = Some k \<and> k \<le> max_depth self"
    using crawl_page_pdfs [of env self url depth] assms store_pdfs_depths [OF _ d]
    by (auto simp: depth_bounded_def)
  with log show ?thesis
    by (simp add: depth_bounded_def crawl_page_max_depth)
qed

lemma crawl_page_fetched_once:
  assumes "fetched_once self"
  shows "fetched_once (fst (crawl_page env self url depth))"
proof (cases "depth > max_depth self \<or> url \<in> visited self")
  case True
  with assms show ?thesis by (simp add: crawl_page_skip)
next
  case False
  then have d: "depth \<le> max_depth self" and v: "url \<notin> visited self" by auto
  show ?thesis
    using assms v by (auto simp: fetched_once_def crawl_page_visit [OF d v])
qed

lemma crawl_page_distinct_pdfs:
  assumes "distinct (map url_of (discovered_pdfs self))"
  shows "distinct (map url_of (discovered_pdfs (fst (crawl_page env self url depth))))"
  using crawl_page_pdfs [of env self url depth] assms
  by (auto intro: store_pdfs_distinct)

lemma crawl_page_keeps_pdfs:
  "\<exists>new. discovered_pdfs (fst (crawl_page env self url depth)) = discovered_pdfs self @ new"
  using crawl_page_pdfs [of env self url depth] store_pdfs_extends
  by (metis append_Nil2)

subsection \<open>One call of \<open>discover_from_page\<close>\<close>

lemma discover_from_page_skip:
  "depth > max_depth self \<or> url \<in> visited self \<Longrightarrow>
   discover_from_page env self url depth = (self, Skipped)"
  by (simp add: discover_from_page_def)

lemma discover_from_page_max_depth:
  "max_depth (fst (discover_from_page env self url depth)) = max_depth self"
  by (simp add: discover_from_page_def Let_def split: option.splits)

lemma discover_from_page_visit:
  assumes "depth \<le> max_depth self" and "url \<notin> visited self"
  shows "visited (fst (discover_from_page env self url depth)) = insert url (visited self)"
    and "fetch_log (fst (discover_from_page env self url depth)) = fetch_log self @ [(url, depth)]"
  using assms by (simp_all add: discover_from_page_def Let_def split: option.splits)

lemma discover_from_page_pdfs:
  "discovered_pdfs (fst (discover_from_page env self url depth)) = discovered_pdfs self \<or>
   (depth \<le> max_depth self \<and>
    (\<exists>pdfs. discovered_pdfs (fst (discover_from_page env self url depth)) =
       discovered_pdfs self @ map (with_provenance url depth) pdfs))"
  by (auto simp: discover_from_page_def Let_def with_provenance_fun split: option.splits)

lemma discover_from_page_links:
  "discovered_links (fst (discover_from_page env self url depth)) = discovered_links self \<or>
   (depth \<le> max_depth self \<and>
    (\<exists>html links. discovered_links (fst (discover_from_page env self url depth)) =
       store_links env html url depth (discovered_links self) links))"
  by (auto simp: discover_from_page_def Let_def split: option.splits)

lemma discover_from_page_depth_bounded:
  assumes "depth_bounded self"
  shows "depth_bounded (fst (discover_from_page env self url depth))"
proof (cases "depth > max_depth self \<or> url \<in> visited self")
  case True
  with assms show ?thesis by (simp add: discover_from_page_skip)
next
  case False
  then have d: "depth \<le> max_depth self" and v: "url \<notin> visited self" by auto
  let ?self' = "fst (discover_from_page env self url depth)"
  have log: "\<forall>(u, k) \<in> set (fetch_log ?self'). k \<le> max_depth ?self'"
    using assms d
    by (auto simp: depth_bounded_def discover_from_page_visit [OF d v] discover_from_page_max_depth)
  have "\<forall>p \<in> set (discovered_pdfs ?self'). \<exists>k. depth_of p = Some k \<and> k \<le> max_depth self"
    using discover_from_page_pdfs [of env self url depth] assms d
    by (auto simp: depth_bounded_def depth_of_with_provenance)
  with log show ?thesis
    by (simp add: depth_bounded_def discover_from_page_max_depth)
qed

lemma discover_from_page_links_bounded:
  assumes "links_bounded self"
  shows "links_bounded (fst (discover_from_page env self url depth))"
  using discover_from_page_links [of env self url depth] assms store_links_depths
  by (auto simp: links_bounded_def discover_from_page_max_depth)

lemma discover_from_page_fetched_once:
  assumes "fetched_once self"
  shows "fetched_once (fst (discover_from_page env self url depth))"
proof (cases "depth > max_depth self \<or> url \<in> visited self")
  case True
  with assms show ?thesis by (simp add: discover_from_page_skip)
next
  case False
  then have d: "depth \<le> max_depth self" and v: "url \<notin> visited self" by auto
  show ?thesis
    using assms v by (auto simp: fetched_once_def discover_from_page_visit [OF d v])
qed

lemma discover_from_page_distinct_links:
  assumes "distinct (map link_url (discovered_links self))"
  shows "distinct (map link_url (discovered_links (fst (discover_from_page env self url depth))))"
  using discover_from_page_links [of env self url depth] assms
  by (auto intro: store_links_distinct)

subsection \<open>Crawl sessions\<close>

lemma new_tools_invariants:
  "depth_bounded (SpiderTool start depth_bound)"
  "depth_bounded (DiscoveryTool start depth_bound)"
  "links_bounded (DiscoveryTool start depth_bound)"
  "fetched_once (SpiderTool start depth_bound)"
  "fetched_once (DiscoveryTool start depth_bound)"
  by (simp_all add: depth_bounded_def links_bounded_def fetched_once_def SpiderTool_def DiscoveryTool_def)

lemma crawl_pages_invariant:
  assumes "P self" and "\<And>self env url depth. P self \<Longrightarrow> P (fst (crawl_page env self url depth))"
  shows "P (crawl_pages self calls)"
  using assms(1)
proof (induction calls arbitrary: self)
  case Nil
  then show ?case by simp
next
  case (Cons call calls)
  obtain env url depth where call: "call = (env, url, depth)"
    by (cases call) auto
  from Cons.prems have "P (fst (crawl_page env self url depth))"
    by (rule assms(2))
  then show ?case
    unfolding call using Cons.IH by simp
qed

lemma discover_pages_invariant:
  assumes "P self" and "\<And>self env url depth. P self \<Longrightarrow> P (fst (discover_from_page env self url depth))"
  shows "P (discover_pages self calls)"
  using assms(1)
proof (induction calls arbitrary: self)
  case Nil
  then show ?case by simp
next
  case (Cons call calls)
  obtain env url depth where call: "call = (env, url, depth)"
    by (cases call) auto
  from Cons.prems have "P (fst (discover_from_page env self url depth))"
    by (rule assms(2))
  then show ?case
    unfolding call using Cons.IH by simp
qed

lemma crawl_pages_max_depth: "max_depth (crawl_pages self calls) = max_depth self"
  by (rule crawl_pages_invariant [where P = "\<lambda>s. max_depth s = max_depth self"])
    (simp_all add: crawl_page_max_depth)

lemma discover_pages_max_depth: "max_depth (discover_pages self calls) = max_depth self"
  by (rule discover_pages_invariant [where P = "\<lambda>s. max_depth s = max_depth self"])
    (simp_all add: discover_from_page_max_depth)

lemma example_sessions:
  "fetch_log (crawl_pages (SpiderTool ''https://example.justice.gov/a'' 1) example_calls) =
     [(''https://example.justice.gov/a'', 0), (''https://example.justice.gov/b'', 1)]"
  "fetch_log (discover_pages (DiscoveryTool ''https://example.justice.gov/a'' 1) example_calls) =
     [(''https://example.justice.gov/a'', 0), (''https://example.justice.gov/b'', 1)]"
  "map depth_of (discovered_pdfs (crawl_pages (SpiderTool ''https://example.justice.gov/a'' 1) example_calls)) =
     [Some 0]"
  by code_simp+

text \<open>
  C4. In every session of either tool, from a new tool and whatever the pages hold,
  every stored PDF, every stored navigation link and every fetch has a depth of at
  most \<open>max_depth\<close>, which stays the bound the tool was made with; a call at a depth
  above \<open>max_depth\<close> returns without fetching and changes nothing; and a call at
  depth \<open>max_depth\<close> itself, on a URL not yet visited, fetches the page.
\<close>

theorem C4_depth_bound:
  "depth_bounded (crawl_pages (SpiderTool start depth_bound) calls) \<and>
   max_depth (crawl_pages (SpiderTool start depth_bound) calls) = depth_bound \<and>
   depth_bounded (discover_pages (DiscoveryTool start depth_bound) calls) \<and>
   links_bounded (discover_pages (DiscoveryTool start depth_bound) calls) \<and>
   max_depth (discover_pages (DiscoveryTool start depth_bound) calls) = depth_bound \<and>
   (depth > max_depth spider \<longrightarrow> crawl_page env spider url depth = (spider, None)) \<and>
   (depth > max_depth tool \<longrightarrow> discover_from_page env tool url depth = (tool, Skipped)) \<and>
   (url \<notin> visited spider \<longrightarrow>
      fetch_log (fst (crawl_page env spider url (max_depth spider))) =
        fetch_log spider @ [(url, max_depth spider)]) \<and>
   (url \<notin> visited tool \<longrightarrow>
      fetch_log (fst (discover_from_page env tool url (max_depth tool))) =
        fetch_log tool @ [(url, max_depth tool)])"
proof -
  have "depth_bounded (crawl_pages (SpiderTool start depth_bound) calls)"
    by (rule crawl_pages_invariant [where P = depth_bounded])
      (simp_all add: new_tools_invariants crawl_page_depth_bounded)
  moreover have "depth_bounded (discover_pages (DiscoveryTool start depth_bound) calls)"
    by (rule discover_pages_invariant [where P = depth_bounded])
      (simp_all add: new_tools_invariants discover_from_page_depth_bounded)
  moreover have "links_bounded (discover_pages (DiscoveryTool start depth_bound) calls)"
    by (rule discover_pages_invariant [where P = links_bounded])
      (simp_all add: new_tools_invariants discover_from_page_links_bounded)
  moreover have "max_depth (crawl_pages (SpiderTool start depth_bound) calls) = depth_bound"
    "max_depth (discover_pages (DiscoveryTool start depth_bound) calls) = depth_bound"
    by (simp_all add: crawl_pages_max_depth discover_pages_max_depth SpiderTool_def DiscoveryTool_def)
  ultimately show ?thesis
    by (simp add: crawl_page_skip discover_from_page_skip crawl_page_visit discover_from_page_visit)
qed

text \<open>On the example page with the bound 1: depth 2 is refused, depth 1 is fetched.\<close>

theorem C4_depth_bound_witness:
  "(2::int) > max_depth (SpiderTool ''https://example.justice.gov/a'' 1) \<and>
   (2::int) > max_depth (DiscoveryTool ''https://example.justice.gov/a'' 1) \<and>
   ''https://example.justice.gov/b'' \<notin> visited (SpiderTool ''https://example.justice.gov/a'' 1) \<and>
   ''https://example.justice.gov/b'' \<notin> visited (DiscoveryTool ''https://example.justice.gov/a'' 1) \<and>
   crawl_page example_web (SpiderTool ''https://example.justice.gov/a'' 1) ''https://example.justice.gov/b'' 2 =
     (SpiderTool ''https://example.justice.gov/a'' 1, None) \<and>
   discover_from_page example_web (DiscoveryTool ''https://example.justice.gov/a'' 1)
       ''https://example.justice.gov/b'' 2 =
     (DiscoveryTool ''https://example.justice.gov/a'' 1, Skipped) \<and>
   fetch_log (fst (crawl_page example_web (SpiderTool ''https://example.justice.gov/a'' 1)
       ''https://example.justice.gov/b'' 1)) = [(''https://example.justice.gov/b'', 1)] \<and>
   fetch_log (fst (discover_from_page example_web (DiscoveryTool ''https://example.justice.gov/a'' 1)
       ''https://example.justice.gov/b'' 1)) = [(''https://example.justice.gov/b'', 1)] \<and>
   depth_bounded (crawl_pages (SpiderTool ''https://example.justice.gov/a'' 1) example_calls) \<and>
   depth_bounded (discover_pages (DiscoveryTool ''https://example.justice.gov/a'' 1) example_calls) \<and>
   links_bounded (discover_pages (DiscoveryTool ''https://example.justice.gov/a'' 1) example_calls)"
  using C4_depth_bound [where start = "''https://example.justice.gov/a''" and depth_bound = 1
      and calls = example_calls and depth = 2 and env = example_web
      and url = "''https://example.justice.gov/b''"
      and spider = "SpiderTool ''https://example.justice.gov/a'' 1"
      and tool = "DiscoveryTool ''https://example.justice.gov/a'' 1"]
  by (simp add: SpiderTool_def DiscoveryTool_def)

text \<open>
  C5. In every session of either tool, no URL is fetched twice and the fetched URLs
  are the visited ones; a call on a visited URL returns without fetching and changes
  nothing; and after a call within the depth bound the URL is visited, whatever the
  fetch returned: when the fetch fails, the call ends with the URL visited and
  logged, and nothing else changed.
\<close>

theorem C5_no_refetch:
  "fetched_once (crawl_pages (SpiderTool start depth_bound) calls) \<and>
   fetched_once (discover_pages (DiscoveryTool start depth_bound) calls) \<and>
   (url \<in> visited spider \<longrightarrow> crawl_page env spider url depth = (spider, None)) \<and>
   (url \<in> visited tool \<longrightarrow> discover_from_page env tool url depth = (tool, Skipped)) \<and>
   (depth \<le> max_depth spider \<longrightarrow> url \<in> visited (fst (crawl_page env spider url depth))) \<and>
   (depth \<le> max_depth tool \<longrightarrow> url \<in> visited (fst (discover_from_page env tool url depth))) \<and>
   (depth \<le> max_depth spider \<and> url \<notin> visited spider \<and> fetch_page env url = None \<longrightarrow>
      crawl_page env spider url depth =
        (spider\<lparr>visited := insert url (visited spider), fetch_log := fetch_log spider @ [(url, depth)]\<rparr>,
         None)) \<and>
   (depth \<le> max_depth tool \<and> url \<notin> visited tool \<and> fetch_page env url = None \<longrightarrow>
      discover_from_page env tool url depth =
        (tool\<lparr>visited := insert url (visited tool), fetch_log := fetch_log tool @ [(url, depth)]\<rparr>,
         FetchError))"
proof -
  have "fetched_once (crawl_pages (SpiderTool start depth_bound) calls)"
    by (rule crawl_pages_invariant [where P = fetched_once])
      (simp_all add: new_tools_invariants crawl_page_fetched_once)
  moreover have "fetched_once (discover_pages (DiscoveryTool start depth_bound) calls)"
    by (rule discover_pages_invariant [where P = fetched_once])
      (simp_all add: new_tools_invariants discover_from_page_fetched_once)
  moreover have "url \<in> visited (fst (crawl_page env spider url depth))" if "depth \<le> max_depth spider"
    using that crawl_page_visit(1) [of depth spider url env]
    by (cases "url \<in> visited spider") (simp_all add: crawl_page_skip)
  moreover have "url \<in> visited (fst (discover_from_page env tool url depth))" if "depth \<le> max_depth tool"
    using that discover_from_page_visit(1) [of depth tool url env]
    by (cases "url \<in> visited tool") (simp_all add: discover_from_page_skip)
  moreover have "crawl_page env spider url depth =
        (spider\<lparr>visited := insert url (visited spider), fetch_log := fetch_log spider @ [(url, depth)]\<rparr>,
         None)"
    if "depth \<le> max_depth spider \<and> url \<notin> visited spider \<and> fetch_page env url = None"
    using that by (simp add: crawl_page_def)
  moreover have "discover_from_page env tool url depth =
        (tool\<lparr>visited := insert url (visited tool), fetch_log := fetch_log tool @ [(url, depth)]\<rparr>,
         FetchError)"
    if "depth \<le> max_depth tool \<and> url \<notin> visited tool \<and> fetch_page env url = None"
    using that by (simp add: discover_from_page_def)
  ultimately show ?thesis
    by (simp add: crawl_page_skip discover_from_page_skip)
qed

text \<open>
  A page that cannot be fetched is visited after the first call on it, and the second
  call on it is skipped.
\<close>

theorem C5_no_refetch_witness:
  "(let spider = fst (crawl_page example_web (SpiderTool ''https://example.justice.gov/a'' 1)
                       ''https://example.justice.gov/b'' 1);
        tool = fst (discover_from_page example_web (DiscoveryTool ''https://example.justice.gov/a'' 1)
                      ''https://example.justice.gov/b'' 1)
    in fetch_page example_web ''https://example.justice.gov/b'' = None \<and>
       ''https://example.justice.gov/b'' \<in> visited spider \<and>
       ''https://example.justice.gov/b'' \<in> visited tool \<and>
       crawl_page example_web spider ''https://example.justice.gov/b'' 0 = (spider, None) \<and>
       discover_from_page example_web tool ''https://example.justice.gov/b'' 0 = (tool, Skipped)) \<and>
   fetched_once (crawl_pages (SpiderTool ''https://example.justice.gov/a'' 1) example_calls) \<and>
   fetched_once (discover_pages (DiscoveryTool ''https://example.justice.gov/a'' 1) example_calls)"
proof -
  define spider where "spider = fst (crawl_page example_web (SpiderTool ''https://example.justice.gov/a'' 1)
                       ''https://example.justice.gov/b'' 1)"
  define tool where "tool = fst (discover_from_page example_web (DiscoveryTool ''https://example.justice.gov/a'' 1)
                      ''https://example.justice.gov/b'' 1)"
  have none: "fetch_page example_web ''https://example.justice.gov/b'' = None"
    by (simp add: fetch_page_def example_web_def page_web_def)
  have first: "''https://example.justice.gov/b'' \<in> visited spider"
    "''https://example.justice.gov/b'' \<in> visited tool"
    using C5_no_refetch [where start = "''https://example.justice.gov/a''" and depth_bound = 1
        and calls = example_calls and depth = 1 and env = example_web
        and url = "''https://example.justice.gov/b''"
        and spider = "SpiderTool ''https://example.justice.gov/a'' 1"
        and tool = "DiscoveryTool ''https://example.justice.gov/a'' 1"]
    by (simp_all add: spider_def tool_def SpiderTool_def DiscoveryTool_def)
  show ?thesis
    using none first
      C5_no_refetch [where start = "''https://example.justice.gov/a''" and depth_bound = 1
        and calls = example_calls and depth = 0 and env = example_web
        and url = "''https://example.justice.gov/b''" and spider = spider and tool = tool]
    unfolding spider_def [symmetric] tool_def [symmetric] Let_def
    by simp
qed

subsection \<open>Documents found twice\<close>

text \<open>
  The spider stores a PDF once: the URLs of \<open>discovered_pdfs\<close> stay pairwise
  distinct over a session, and a call only appends to the list, so an entry keeps the
  page and depth it was first stored with. The discovery tool keeps its navigation
  links distinct in the same way.
\<close>

lemma crawl_pages_distinct_pdfs:
  "distinct (map url_of (discovered_pdfs (crawl_pages (SpiderTool start depth_bound) calls)))"
  by (rule crawl_pages_invariant [where P = "\<lambda>s. distinct (map url_of (discovered_pdfs s))"])
    (simp_all add: SpiderTool_def crawl_page_distinct_pdfs)

lemma discover_pages_distinct_links:
  "distinct (map link_url (discovered_links (discover_pages (DiscoveryTool start depth_bound) calls)))"
  by (rule discover_pages_invariant [where P = "\<lambda>s. distinct (map link_url (discovered_links s))"])
    (simp_all add: DiscoveryTool_def discover_from_page_distinct_links)

lemma scenario_spider:
  "(let r = crawl_page example_web (SpiderTool ''https://example.justice.gov/a'' 1)
              ''https://example.justice.gov/a'' 0
    in map url_of (discovered_pdfs (fst r)) = [Some (VStr ''https://example.justice.gov/x.pdf'')] \<and>
       map depth_of (discovered_pdfs (fst r)) = [Some 0] \<and>
       fetch_log (fst r) = [(''https://example.justice.gov/a'', 0)] \<and>
       ''https://example.justice.gov/a'' \<in> visited (fst r) \<and>
       (case snd r of
          Some (PageData page title n pdf_links nav_links preview d) \<Rightarrow>
            map url_of nav_links = [Some (VStr ''https://example.justice.gov/b'')] \<and>
            map url_of pdf_links = [Some (VStr ''https://example.justice.gov/x.pdf'')]
        | None \<Rightarrow> False))"
  by code_simp

text \<open>
  C6 does not hold for \<open>DiscoveryTool.discover_from_page\<close>, which appends every PDF
  link it finds: on the example page, which links its PDF twice, \<open>discovered_pdfs\<close>
  ends with two entries for the PDF.
\<close>

theorem C6_discovery_tool_stores_duplicates:
  "(let r = discover_from_page example_web (DiscoveryTool ''https://example.justice.gov/a'' 1)
              ''https://example.justice.gov/a'' 0
    in map url_of (discovered_pdfs (fst r)) =
         [Some (VStr ''https://example.justice.gov/x.pdf''), Some (VStr ''https://example.justice.gov/x.pdf'')] \<and>
       map depth_of (discovered_pdfs (fst r)) = [Some 0, Some 0] \<and>
       map link_url (discovered_links (fst r)) = [''https://example.justice.gov/b''])"
  by code_simp

subsection \<open>Classification of links\<close>

lemma classify_cases:
  "classify env h page_url = Skip \<or>
   classify env h page_url = Document (make_absolute env page_url (strip h)) \<or>
   classify env h page_url = InternalNav (make_absolute env page_url (strip h))"
  by (simp add: classify_def Let_def)

lemma extract_links_htmlq_loop_classify:
  assumes "extract_links_htmlq_loop env html page_url hrefs (pdfs, nav_links) = Some (pdfs', nav_links')"
  shows "map url_of pdfs' =
           map url_of pdfs @
           map (\<lambda>u. Some (VStr u)) (List.map_filter (\<lambda>h. document_url (classify env h page_url)) hrefs) \<and>
         map url_of nav_links' =
           map url_of nav_links @
           map (\<lambda>u. Some (VStr u)) (List.map_filter (\<lambda>h. nav_url (classify env h page_url)) hrefs)"
  using assms
proof (induction hrefs arbitrary: pdfs nav_links)
  case Nil
  then show ?case by (simp add: List.map_filter_simps)
next
  case (Cons h hrefs)
  let ?url = "make_absolute env page_url (strip h)"
  consider (skip) "classify env h page_url = Skip"
    | (doc) "classify env h page_url = Document ?url"
    | (nav) "classify env h page_url = InternalNav ?url"
    using classify_cases [of env h page_url] by blast
  then show ?case
  proof cases
    case skip
    then have "extract_links_htmlq_loop env html page_url (h # hrefs) (pdfs, nav_links) =
        extract_links_htmlq_loop env html page_url hrefs (pdfs, nav_links)"
      by (auto simp: classify_def Let_def split: if_splits)
    with Cons.prems Cons.IH [of pdfs nav_links] skip show ?thesis
      by (simp add: List.map_filter_simps document_url_def nav_url_def)
  next
    case doc
    then have kept: "\<not> skipped_href (strip h)" "endswith (netloc (urlparse ?url)) ''justice.gov''"
      "endswith (lower ?url) ''.pdf''"
      by (auto simp: classify_def Let_def split: if_splits)
    from Cons.prems kept obtain label where
      "extract_links_htmlq_loop env html page_url hrefs (pdfs @ [link_data ?url label], nav_links) =
         Some (pdfs', nav_links')"
      by (auto simp: Let_def split: option.splits)
    from Cons.IH [OF this] doc show ?thesis
      by (simp add: List.map_filter_simps document_url_def nav_url_def url_of_link_data)
  next
    case nav
    then have kept: "\<not> skipped_href (strip h)" "endswith (netloc (urlparse ?url)) ''justice.gov''"
      "\<not> endswith (lower ?url) ''.pdf''"
      by (auto simp: classify_def Let_def split: if_splits)
    from Cons.prems kept obtain label where
      "extract_links_htmlq_loop env html page_url hrefs (pdfs, nav_links @ [link_data ?url label]) =
         Some (pdfs', nav_links')"
      by (auto simp: Let_def split: option.splits)
    from Cons.IH [OF this] nav show ?thesis
      by (simp add: List.map_filter_simps document_url_def nav_url_def url_of_link_data)
  qed
qed

text \<open>
  C7, as amended. \<open>classify\<close> skips an href that, stripped of white space, is empty
  or begins with \<open>#\<close> or \<open>javascript:\<close>; an href with a leading slash is resolved
  to the scheme and network location of the page followed by the href; the result is
  \<open>Document\<close> exactly for a resolved URL on \<open>justice.gov\<close> that, lowercased, ends
  in \<open>.pdf\<close>, and \<open>InternalNav\<close> exactly for one on \<open>justice.gov\<close> that does not;
  \<open>/files/report.PDF\<close> on \<open>https://example.justice.gov/page\<close> is the document
  \<open>https://example.justice.gov/files/report.PDF\<close>; and the loop of
  \<open>extract_links_htmlq\<close>, when it ends without an exception, returns as PDFs the
  documents and as navigation links the \<open>InternalNav\<close> results of \<open>classify\<close> on
  the hrefs, in order. A URL outside \<open>justice.gov\<close> is in neither list.
\<close>

theorem C7_link_classification:
  "(strip href = [] \<or> startswith (strip href) ''#'' \<or> startswith (strip href) ''javascript:'' \<longrightarrow>
      classify env href page_url = Skip) \<and>
   (startswith (strip href) ''/'' \<longrightarrow>
      make_absolute env page_url (strip href) =
        scheme (urlparse page_url) @ ''://'' @ netloc (urlparse page_url) @ strip href) \<and>
   (classify env href page_url = Document url \<longleftrightarrow>
      \<not> skipped_href (strip href) \<and> url = make_absolute env page_url (strip href) \<and>
      endswith (netloc (urlparse url)) ''justice.gov'' \<and> endswith (lower url) ''.pdf'') \<and>
   (classify env href page_url = InternalNav url \<longleftrightarrow>
      \<not> skipped_href (strip href) \<and> url = make_absolute env page_url (strip href) \<and>
      endswith (netloc (urlparse url)) ''justice.gov'' \<and> \<not> endswith (lower url) ''.pdf'') \<and>
   classify env ''/files/report.PDF'' ''https://example.justice.gov/page'' =
     Document ''https://example.justice.gov/files/report.PDF'' \<and>
   (extract_links_htmlq_loop env html page_url hrefs ([], []) = Some (pdfs, nav_links) \<longrightarrow>
      map url_of pdfs =
        map (\<lambda>u. Some (VStr u)) (List.map_filter (\<lambda>h. document_url (classify env h page_url)) hrefs) \<and>
      map url_of nav_links =
        map (\<lambda>u. Some (VStr u)) (List.map_filter (\<lambda>h. nav_url (classify env h page_url)) hrefs))"
proof -
  have skip: "classify env href page_url = Skip"
    if "strip href = [] \<or> startswith (strip href) ''#'' \<or> startswith (strip href) ''javascript:''"
    using that by (simp add: classify_def skipped_href_def)
  have slash: "make_absolute env page_url (strip href) =
        scheme (urlparse page_url) @ ''://'' @ netloc (urlparse page_url) @ strip href"
    if "startswith (strip href) ''/''"
    using that by (simp add: make_absolute_def)
  have doc: "classify env href page_url = Document url \<longleftrightarrow>
      \<not> skipped_href (strip href) \<and> url = make_absolute env page_url (strip href) \<and>
      endswith (netloc (urlparse url)) ''justice.gov'' \<and> endswith (lower url) ''.pdf''"
    by (auto simp: classify_def Let_def)
  have nav: "classify env href page_url = InternalNav url \<longleftrightarrow>
      \<not> skipped_href (strip href) \<and> url = make_absolute env page_url (strip href) \<and>
      endswith (netloc (urlparse url)) ''justice.gov'' \<and> \<not> endswith (lower url) ''.pdf''"
    by (auto simp: classify_def Let_def)
  have stripped: "strip ''/files/report.PDF'' = ''/files/report.PDF''"
    by code_simp
  have base: "scheme (urlparse ''https://example.justice.gov/page'') = ''https''"
    "netloc (urlparse ''https://example.justice.gov/page'') = ''example.justice.gov''"
    by code_simp+
  have resolved: "netloc (urlparse ''https://example.justice.gov/files/report.PDF'') = ''example.justice.gov''"
    "endswith ''example.justice.gov'' ''justice.gov''"
    "endswith (lower ''https://example.justice.gov/files/report.PDF'') ''.pdf''"
    "\<not> skipped_href ''/files/report.PDF''"
    "startswith ''/files/report.PDF'' ''/''"
    by code_simp+
  have scenario: "classify env ''/files/report.PDF'' ''https://example.justice.gov/page'' =
     Document ''https://example.justice.gov/files/report.PDF''"
    by (simp add: classify_def stripped make_absolute_def base resolved)
  have loop: "map url_of pdfs =
        map (\<lambda>u. Some (VStr u)) (List.map_filter (\<lambda>h. document_url (classify env h page_url)) hrefs) \<and>
      map url_of nav_links =
        map (\<lambda>u. Some (VStr u)) (List.map_filter (\<lambda>h. nav_url (classify env h page_url)) hrefs)"
    if "extract_links_htmlq_loop env html page_url hrefs ([], []) = Some (pdfs, nav_links)"
    using extract_links_htmlq_loop_classify [OF that] by simp
  from skip slash doc nav scenario loop show ?thesis by blast
qed

text \<open>Four hrefs of the example page: a PDF, a relative link, an external link and a fragment.\<close>

lemma example_hrefs_links:
  "extract_links_htmlq_loop example_web ''<html></html>'' ''https://example.justice.gov/a'' example_hrefs ([], []) =
     Some ([link_data ''https://example.justice.gov/x.pdf'' []], [link_data ''https://example.justice.gov/b'' []])"
  by code_simp

lemma example_href_facts:
  "startswith (strip ''#top'') ''#''"
  "startswith (strip '' /b'') ''/''"
  "strip '' /b'' = ''/b''"
  "scheme (urlparse ''https://example.justice.gov/a'') = ''https''"
  "netloc (urlparse ''https://example.justice.gov/a'') = ''example.justice.gov''"
  by code_simp+

theorem C7_link_classification_witness:
  "startswith (strip ''#top'') ''#'' \<and>
   classify example_web ''#top'' ''https://example.justice.gov/a'' = Skip \<and>
   startswith (strip '' /b'') ''/'' \<and>
   make_absolute example_web ''https://example.justice.gov/a'' (strip '' /b'') = ''https://example.justice.gov/b'' \<and>
   extract_links_htmlq_loop example_web ''<html></html>'' ''https://example.justice.gov/a'' example_hrefs ([], []) =
     Some ([link_data ''https://example.justice.gov/x.pdf'' []], [link_data ''https://example.justice.gov/b'' []]) \<and>
   map url_of [link_data ''https://example.justice.gov/x.pdf'' []] =
     map (\<lambda>u. Some (VStr u))
       (List.map_filter (\<lambda>h. document_url (classify example_web h ''https://example.justice.gov/a'')) example_hrefs) \<and>
   map url_of [link_data ''https://example.justice.gov/b'' []] =
     map (\<lambda>u. Some (VStr u))
       (List.map_filter (\<lambda>h. nav_url (classify example_web h ''https://example.justice.gov/a'')) example_hrefs)"
proof -
  have "classify example_web ''#top'' ''https://example.justice.gov/a'' = Skip"
    using C7_link_classification [where href = "''#top''" and env = example_web
        and page_url = "''https://example.justice.gov/a''"]
      example_href_facts(1)
    by blast
  moreover have "make_absolute example_web ''https://example.justice.gov/a'' (strip '' /b'') =
      ''https://example.justice.gov/b''"
    using C7_link_classification [where href = "'' /b''" and env = example_web
        and page_url = "''https://example.justice.gov/a''"]
      example_href_facts
    by simp
  moreover have "map url_of [link_data ''https://example.justice.gov/x.pdf'' []] =
     map (\<lambda>u. Some (VStr u))
       (List.map_filter (\<lambda>h. document_url (classify example_web h ''https://example.justice.gov/a'')) example_hrefs) \<and>
   map url_of [link_data ''https://example.justice.gov/b'' []] =
     map (\<lambda>u. Some (VStr u))
       (List.map_filter (\<lambda>h. nav_url (classify example_web h ''https://example.justice.gov/a'')) example_hrefs)"
    using C7_link_classification [where env = example_web and html = "''<html></html>''"
        and page_url = "''https://example.justice.gov/a''" and hrefs = example_hrefs
        and pdfs = "[link_data ''https://example.justice.gov/x.pdf'' []]"
        and nav_links = "[link_data ''https://example.justice.gov/b'' []]"]
      example_hrefs_links
    by blast
  ultimately show ?thesis
    using example_href_facts(1,2) example_hrefs_links by blast
qed

text \<open>
  The claim as stated tags a URL by its path, and tags a PDF on any host. A PDF path
  followed by a query string comes back as a navigation link, and a PDF on another
  host is dropped.
\<close>

theorem C7_query_string_counterexample:
  "endswith (lower (path (urlparse ''https://example.justice.gov/files/report.pdf?download=1''))) ''.pdf'' \<and>
   endswith (lower (path (urlparse ''https://other.com/doc.pdf''))) ''.pdf'' \<and>
   extract_links_htmlq
     (page_web (''/files/report.pdf?download=1'' @ [CHR 0x0A] @ ''https://other.com/doc.pdf''))
     ''<html></html>'' ''https://example.justice.gov/page'' =
     ([],
      [[(''url'', VStr ''https://example.justice.gov/files/report.pdf?download=1''),
        (''text'', VStr []), (''domain'', VStr ''example.justice.gov'')]])"
  by code_simp

end
